theory Spec2Isabelle
  imports Complex_Main "HOL-Library.Word" "HOL-Library.Char_ord" "HOL-Library.List_Lexorder"
    "HOL-Library.Product_Lexorder"
begin

unbundle bit_operations_syntax

section \<open>Python helpers\<close>

text \<open>
  Strings are ASCII character lists. Python floats are modelled as real numbers with exact
  arithmetic: rounding, overflow and the non-finite values are outside the model.
\<close>

datatype py_error = ZeroDivisionError | IntegrityError | OperationalError

definition digit_char :: "nat \<Rightarrow> char" where
  "digit_char d = char_of (48 + d)"

text \<open>\<^verbatim>\<open>str(n)\<close> for a natural number: its decimal digits.\<close>

function str_nat :: "nat \<Rightarrow> string" where
  "str_nat n = (if n < 10 then [digit_char n] else str_nat (n div 10) @ [digit_char (n mod 10)])"
  by pat_completeness auto
termination
  by (relation "measure id") auto

declare str_nat.simps [simp del]

definition str_int :: "int \<Rightarrow> string" where
  "str_int i = (if i < 0 then CHR ''-'' # str_nat (nat (- i)) else str_nat (nat i))"

text \<open>Zero padding of the formats \<^verbatim>\<open>{m:02d}\<close> and \<^verbatim>\<open>%04d\<close>.\<close>

definition zfill :: "nat \<Rightarrow> string \<Rightarrow> string" where
  "zfill w s = replicate (w - length s) CHR ''0'' @ s"

definition fmt_02d :: "nat \<Rightarrow> string" where
  "fmt_02d n = zfill 2 (str_nat n)"

text \<open>The slice \<^verbatim>\<open>s[i:j]\<close> for \<open>0 \<le> i \<le> j\<close>.\<close>

definition slice :: "nat \<Rightarrow> nat \<Rightarrow> string \<Rightarrow> string" where
  "slice i j s = take (j - i) (drop i s)"

definition MONTH_COLS :: "string list" where
  "MONTH_COLS = map fmt_02d [1..<13]"

definition signed_to_spend :: "real \<Rightarrow> real" where
  "signed_to_spend amount = - amount"

definition month_of :: "string \<Rightarrow> string" where
  "month_of txn_date_iso = slice 5 7 txn_date_iso"

section \<open>Summaries (sheet math)\<close>

text \<open>
  A row of the year's data frame, with the columns \<^verbatim>\<open>compute_summary\<close> reads. A missing
  category (NULL) is \<open>None\<close>.
\<close>

record frame_row =
  fr_kind :: string
  fr_excluded :: int
  fr_amount :: real
  fr_txn_date :: string
  fr_category :: "string option"

text \<open>A row of an output table: its index label, the twelve month columns, the derived columns.\<close>

record table_row =
  label :: string
  months :: "real list"
  average_per_month :: real
  ytd_totals :: real
  average_per_week :: real
  average_per_day :: real

text \<open>
  The \<^verbatim>\<open>"Savings Rate"\<close> row: its month columns and its \<^verbatim>\<open>"YTD Totals"\<close> column; its three
  other columns hold \<^verbatim>\<open>None\<close>.
\<close>

record rate_row =
  rate_label :: string
  rate_months :: "real list"
  rate_ytd :: real

record summary =
  exp_table :: "table_row list"
  inc_table :: "table_row list"
  saved_row :: table_row
  savings_rate_row :: rate_row
  savings_rate_ytd :: real

text \<open>
  \<^verbatim>\<open>pivot_table(index="category", columns="month", aggfunc="sum", fill_value=0.0)\<close>, restricted
  to the columns of \<^verbatim>\<open>MONTH_COLS\<close> and reindexed by the category list: one row per entry of the
  list, each cell the sum of the values of the rows with that category and that month. Rows
  without a category belong to no group.
\<close>

definition pivot_cell :: "(frame_row \<Rightarrow> real) \<Rightarrow> frame_row list \<Rightarrow> string \<Rightarrow> string \<Rightarrow> real" where
  "pivot_cell val rows cat m =
     sum_list (map val (filter (\<lambda>r. fr_category r = Some cat \<and> slice 5 7 (fr_txn_date r) = m) rows))"

definition pivot :: "(frame_row \<Rightarrow> real) \<Rightarrow> frame_row list \<Rightarrow> string list \<Rightarrow> (string \<times> real list) list" where
  "pivot val rows cats = map (\<lambda>c. (c, map (pivot_cell val rows c) MONTH_COLS)) cats"

text \<open>The four derived columns of a pivot row.\<close>

definition derived :: "string \<times> real list \<Rightarrow> table_row" where
  "derived p =
     (let avg = sum_list (snd p) / 12;
          ytd = sum_list (snd p)
      in \<lparr>label = fst p, months = snd p, average_per_month = avg, ytd_totals = ytd,
          average_per_week = ytd / 52, average_per_day = ytd / 364\<rparr>)"

text \<open>The sum of each month column over the rows of a pivot.\<close>

definition column_sums :: "table_row list \<Rightarrow> real list" where
  "column_sums rows = map (\<lambda>i. sum_list (map (\<lambda>r. months r ! i) rows)) [0..<12]"

definition total_row :: "string \<Rightarrow> real list \<Rightarrow> real \<Rightarrow> table_row" where
  "total_row name cols tot =
     \<lparr>label = name, months = cols, average_per_month = tot / 12, ytd_totals = tot,
      average_per_week = tot / 52, average_per_day = tot / 364\<rparr>"

text \<open>Python's float division raises on a zero divisor.\<close>

definition truediv :: "real \<Rightarrow> real \<Rightarrow> py_error + real" where
  "truediv a b = (if b = 0 then Inl ZeroDivisionError else Inr (a / b))"

text \<open>\<^verbatim>\<open>(sav / inc) if inc else 0.0\<close>: a float is true when it is not zero.\<close>

definition rate :: "real \<Rightarrow> real \<Rightarrow> py_error + real" where
  "rate sav inc = (if inc \<noteq> 0 then truediv sav inc else Inr 0)"

text \<open>Running a list of computations in order, stopping at the first that raises.\<close>

fun collect :: "(py_error + 'a) list \<Rightarrow> py_error + 'a list" where
  "collect [] = Inr []"
| "collect (x # xs) =
     (case x of Inl e \<Rightarrow> Inl e
      | Inr v \<Rightarrow> (case collect xs of Inl e \<Rightarrow> Inl e | Inr vs \<Rightarrow> Inr (v # vs)))"

definition exp_rows :: "frame_row list \<Rightarrow> frame_row list" where
  "exp_rows df_year = filter (\<lambda>r. fr_kind r = ''expense'' \<and> fr_excluded r = 0) df_year"

definition inc_rows :: "frame_row list \<Rightarrow> frame_row list" where
  "inc_rows df_year = filter (\<lambda>r. fr_kind r = ''income'' \<and> fr_excluded r = 0) df_year"

definition exp_pivot :: "frame_row list \<Rightarrow> string list \<Rightarrow> table_row list" where
  "exp_pivot df_year expense_cats =
     map derived (pivot (\<lambda>r. signed_to_spend (fr_amount r)) (exp_rows df_year) expense_cats)"

definition inc_pivot :: "frame_row list \<Rightarrow> string list \<Rightarrow> table_row list" where
  "inc_pivot df_year income_cats = map derived (pivot fr_amount (inc_rows df_year) income_cats)"

definition spend_by_month :: "frame_row list \<Rightarrow> string list \<Rightarrow> real list" where
  "spend_by_month df_year expense_cats = column_sums (exp_pivot df_year expense_cats)"

definition income_by_month :: "frame_row list \<Rightarrow> string list \<Rightarrow> real list" where
  "income_by_month df_year income_cats = column_sums (inc_pivot df_year income_cats)"

definition saved_by_month :: "frame_row list \<Rightarrow> string list \<Rightarrow> string list \<Rightarrow> real list" where
  "saved_by_month df_year expense_cats income_cats =
     map (\<lambda>i. income_by_month df_year income_cats ! i - spend_by_month df_year expense_cats ! i) [0..<12]"

definition total_spent :: "frame_row list \<Rightarrow> string list \<Rightarrow> real" where
  "total_spent df_year expense_cats = sum_list (map ytd_totals (exp_pivot df_year expense_cats))"

definition total_income :: "frame_row list \<Rightarrow> string list \<Rightarrow> real" where
  "total_income df_year income_cats = sum_list (map ytd_totals (inc_pivot df_year income_cats))"

definition compute_summary :: "frame_row list \<Rightarrow> string list \<Rightarrow> string list \<Rightarrow> py_error + summary" where
  "compute_summary df_year expense_cats income_cats =
     (let ep = exp_pivot df_year expense_cats;
          spent = total_spent df_year expense_cats;
          et = ep @ [total_row ''Total Spent'' (column_sums ep) spent];
          ip = inc_pivot df_year income_cats;
          income = total_income df_year income_cats;
          it = ip @ [total_row ''Total Net Income'' (column_sums ip) income];
          ibm = income_by_month df_year income_cats;
          sbm = saved_by_month df_year expense_cats income_cats;
          total_saved = income - spent
      in case collect (map (\<lambda>i. rate (sbm ! i) (ibm ! i)) [0..<12]) of
           Inl e \<Rightarrow> Inl e
         | Inr savings_rate_month \<Rightarrow>
             (case rate total_saved income of
                Inl e \<Rightarrow> Inl e
              | Inr ytd \<Rightarrow>
                  Inr \<lparr>exp_table = et, inc_table = it,
                       saved_row = total_row ''Total Saved'' sbm total_saved,
                       savings_rate_row = \<lparr>rate_label = ''Savings Rate'',
                         rate_months = savings_rate_month, rate_ytd = ytd\<rparr>,
                       savings_rate_ytd = ytd\<rparr>))"

text \<open>The example scenario, and a year whose only income is negative.\<close>

definition example_df :: "frame_row list" where
  "example_df =
    [\<lparr>fr_kind = ''expense'', fr_excluded = 0, fr_amount = - 50, fr_txn_date = ''2024-01-05'',
       fr_category = Some ''Groceries''\<rparr>,
     \<lparr>fr_kind = ''expense'', fr_excluded = 0, fr_amount = - 1000, fr_txn_date = ''2024-02-10'',
       fr_category = Some ''Rent''\<rparr>,
     \<lparr>fr_kind = ''income'', fr_excluded = 0, fr_amount = 3000, fr_txn_date = ''2024-01-01'',
       fr_category = Some ''Salary''\<rparr>]"

definition negative_income_df :: "frame_row list" where
  "negative_income_df =
    [\<lparr>fr_kind = ''income'', fr_excluded = 0, fr_amount = - 100, fr_txn_date = ''2024-01-05'',
       fr_category = Some ''Salary''\<rparr>]"

section \<open>Identity assignment\<close>

text \<open>
  SHA-256 itself is a parameter: any function from the encoded signature to a 256-bit digest.
  \<^verbatim>\<open>hexdigest\<close> writes the digest as 64 lower-case hexadecimal digits, the most significant
  first.
\<close>

type_synonym sha256 = "string \<Rightarrow> 256 word"

definition hex_char :: "nat \<Rightarrow> char" where
  "hex_char d = (if d < 10 then char_of (48 + d) else char_of (87 + d))"

fun hex_of :: "nat \<Rightarrow> 256 word \<Rightarrow> string" where
  "hex_of 0 w = []"
| "hex_of (Suc n) w = hex_of n (drop_bit 4 w) @ [hex_char (unat (w AND 15))]"

definition hexdigest :: "256 word \<Rightarrow> string" where
  "hexdigest w = hex_of 64 w"

definition base_hash :: "sha256 \<Rightarrow> string \<Rightarrow> string" where
  "base_hash sha sig = take 16 (hexdigest (sha sig))"

text \<open>
  A row of a data frame of transactions, as the importer and the manual entry forms build it,
  with the column \<^verbatim>\<open>external_id\<close> once it is assigned. A cell that holds no value (\<^verbatim>\<open>None\<close>, or
  \<^verbatim>\<open>NaN\<close> in the float column \<^verbatim>\<open>amount\<close>) is \<open>None\<close>.
\<close>

record df_row =
  df_external_id :: "string option"
  df_txn_date :: "string option"
  df_posted_date :: "string option"
  df_description :: "string option"
  df_amount :: "real option"
  df_kind :: "string option"
  df_account :: "string option"
  df_category :: "string option"
  df_excluded :: int
  df_notes :: "string option"

text \<open>Rounding to the nearest integer, ties to the even one, as the float formatting does.\<close>

definition round_half_even :: "real \<Rightarrow> int" where
  "round_half_even x =
     (let f = \<lfloor>x\<rfloor>; d = x - of_int f
      in if d < 1 / 2 then f else if 1 / 2 < d then f + 1 else if even f then f else f + 1)"

text \<open>The format \<^verbatim>\<open>{x:.2f}\<close> of a number.\<close>

definition fmt_2f :: "real \<Rightarrow> string" where
  "fmt_2f x =
     (let c = nat (round_half_even (\<bar>x\<bar> * 100))
      in (if x < 0 then ''-'' else '''') @ str_nat (c div 100) @ ''.'' @ zfill 2 (str_nat (c mod 100)))"

text \<open>How an f-string writes a cell: \<^verbatim>\<open>None\<close> as its name, the missing number as \<^verbatim>\<open>nan\<close>.\<close>

definition fmt_cell :: "string option \<Rightarrow> string" where
  "fmt_cell c = (case c of None \<Rightarrow> ''None'' | Some s \<Rightarrow> s)"

definition fmt_amount :: "real option \<Rightarrow> string" where
  "fmt_amount a = (case a of None \<Rightarrow> ''nan'' | Some x \<Rightarrow> fmt_2f x)"

definition signature :: "df_row \<Rightarrow> string" where
  "signature r =
     fmt_cell (df_txn_date r) @ ''|'' @ fmt_cell (df_posted_date r) @ ''|'' @
     fmt_amount (df_amount r) @ ''|'' @ fmt_cell (df_description r) @ ''|'' @
     fmt_cell (df_account r) @ ''|'' @ fmt_cell (df_kind r)"

text \<open>
  \<^verbatim>\<open>groupby("_h").cumcount()\<close>: for each row, the number of earlier rows of the frame with the
  same key. The first argument holds the keys already seen.
\<close>

fun cumcount :: "'a list \<Rightarrow> 'a list \<Rightarrow> nat list" where
  "cumcount seen [] = []"
| "cumcount seen (h # hs) = count_list seen h # cumcount (seen @ [h]) hs"

definition make_external_ids :: "sha256 \<Rightarrow> df_row list \<Rightarrow> string list" where
  "make_external_ids sha df =
     (let h = map (\<lambda>r. base_hash sha (signature r)) df
      in map2 (\<lambda>h i. h @ ''-'' @ str_nat (i + 1)) h (cumcount [] h))"

text \<open>\<^verbatim>\<open>df["external_id"] = make_external_ids(df)\<close>\<close>

definition assign_external_ids :: "sha256 \<Rightarrow> df_row list \<Rightarrow> df_row list" where
  "assign_external_ids sha df =
     map2 (\<lambda>r e. r\<lparr>df_external_id := Some e\<rparr>) df (make_external_ids sha df)"

section \<open>Storage\<close>

text \<open>
  The table \<^verbatim>\<open>ledger\<close>. SQLite types values, not columns: a cell holds NULL, a text, a
  number. The constraints of the schema are checked by the statements below: NOT NULL on
  \<^verbatim>\<open>external_id\<close>, \<^verbatim>\<open>txn_date\<close>, \<^verbatim>\<open>description\<close>, \<^verbatim>\<open>amount\<close>, \<^verbatim>\<open>kind\<close>, \<^verbatim>\<open>created_at\<close>, and the
  unique index on \<^verbatim>\<open>external_id\<close>. Conversions between the storage classes of SQLite are
  not modelled: a value is stored as it is bound.
\<close>

datatype sqlval = SNull | SText string | SReal real | SInteger int

record ledger_row =
  row_id :: nat
  external_id :: sqlval
  txn_date :: sqlval
  posted_date :: sqlval
  description :: sqlval
  amount :: sqlval
  kind :: sqlval
  account :: sqlval
  category :: sqlval
  excluded :: sqlval
  row_notes :: sqlval
  created_at :: sqlval

text \<open>
  The database: the rows of the ledger in insertion order, the AUTOINCREMENT counter (the
  largest id given so far), and the table \<^verbatim>\<open>locked_months\<close>.
\<close>

record db =
  ledger :: "ledger_row list"
  id_seq :: nat
  locked_months :: "(int \<times> string) list"

definition not_null_ok :: "ledger_row \<Rightarrow> bool" where
  "not_null_ok r \<longleftrightarrow>
     external_id r \<noteq> SNull \<and> txn_date r \<noteq> SNull \<and> description r \<noteq> SNull \<and>
     amount r \<noteq> SNull \<and> kind r \<noteq> SNull \<and> created_at r \<noteq> SNull"

text \<open>
  One \<^verbatim>\<open>INSERT INTO ledger\<close>. A violated constraint raises \<^verbatim>\<open>IntegrityError\<close> and changes
  nothing. The first argument says whether the storage fails for another reason (the disk, a
  lock), which raises \<^verbatim>\<open>OperationalError\<close>.
\<close>

definition sql_insert :: "bool \<Rightarrow> db \<Rightarrow> ledger_row \<Rightarrow> py_error + db" where
  "sql_insert failing d r =
     (if failing then Inl OperationalError
      else if \<not> not_null_ok r \<or> external_id r \<in> set (map external_id (ledger d))
        then Inl IntegrityError
      else Inr (d\<lparr>ledger := ledger d @ [r\<lparr>row_id := Suc (id_seq d)\<rparr>], id_seq := Suc (id_seq d)\<rparr>))"

definition bind_text :: "string option \<Rightarrow> sqlval" where
  "bind_text c = (case c of None \<Rightarrow> SNull | Some s \<Rightarrow> SText s)"

text \<open>The missing number \<^verbatim>\<open>NaN\<close> is bound as NULL.\<close>

definition bind_real :: "real option \<Rightarrow> sqlval" where
  "bind_real c = (case c of None \<Rightarrow> SNull | Some x \<Rightarrow> SReal x)"

text \<open>The parameters of the \<^verbatim>\<open>INSERT\<close> of \<^verbatim>\<open>insert_rows\<close> for one row of the frame.\<close>

definition insert_params :: "string \<Rightarrow> df_row \<Rightarrow> ledger_row" where
  "insert_params now r =
     \<lparr>row_id = 0,
      external_id = bind_text (df_external_id r),
      txn_date = bind_text (df_txn_date r),
      posted_date = bind_text (df_posted_date r),
      description = bind_text (df_description r),
      amount = bind_real (df_amount r),
      kind = bind_text (df_kind r),
      account = bind_text (df_account r),
      category = bind_text (df_category r),
      excluded = SInteger (df_excluded r),
      row_notes = bind_text (df_notes r),
      created_at = SText now\<rparr>"

text \<open>
  The loop of \<^verbatim>\<open>insert_rows\<close>: \<open>k\<close> is the position of the next row in the batch, \<open>fault k\<close>
  says whether the storage fails at that statement. Only \<^verbatim>\<open>IntegrityError\<close> is caught.
\<close>

fun insert_loop ::
  "(nat \<Rightarrow> bool) \<Rightarrow> string \<Rightarrow> nat \<Rightarrow> df_row list \<Rightarrow> db \<Rightarrow> nat \<Rightarrow> nat \<Rightarrow> py_error + (db \<times> nat \<times> nat)"
where
  "insert_loop fault now k [] d inserted skipped = Inr (d, inserted, skipped)"
| "insert_loop fault now k (r # rs) d inserted skipped =
     (case sql_insert (fault k) d (insert_params now r) of
        Inr d' \<Rightarrow> insert_loop fault now (Suc k) rs d' (inserted + 1) skipped
      | Inl e \<Rightarrow>
          if e = IntegrityError then insert_loop fault now (Suc k) rs d inserted (skipped + 1)
          else Inl e)"

text \<open>
  \<^verbatim>\<open>insert_rows\<close>: the loop runs inside \<^verbatim>\<open>with db() as conn\<close>, which commits when the block
  ends and rolls the transaction back when an exception leaves it.
\<close>

definition insert_rows :: "(nat \<Rightarrow> bool) \<Rightarrow> string \<Rightarrow> db \<Rightarrow> df_row list \<Rightarrow> db \<times> (py_error + nat \<times> nat)" where
  "insert_rows fault now d df =
     (case insert_loop fault now 0 df d 0 0 of
        Inl e \<Rightarrow> (d, Inl e)
      | Inr (d', inserted, skipped) \<Rightarrow> (d', Inr (inserted, skipped)))"

section \<open>Notions used to state the properties of the import\<close>

text \<open>A row that \<^verbatim>\<open>INSERT\<close> refuses with \<^verbatim>\<open>IntegrityError\<close>: it violates a constraint.\<close>

definition violates :: "db \<Rightarrow> ledger_row \<Rightarrow> bool" where
  "violates d p \<longleftrightarrow> \<not> not_null_ok p \<or> external_id p \<in> set (map external_id (ledger d))"

text \<open>
  The rows of a batch that the table accepts, in the order of the batch, when it holds the
  identifiers \<open>ids\<close>: each row is judged on its own, against the identifiers stored when its
  turn comes.
\<close>

fun accepted :: "sqlval set \<Rightarrow> ledger_row list \<Rightarrow> ledger_row list" where
  "accepted ids [] = []"
| "accepted ids (p # ps) =
     (if not_null_ok p \<and> external_id p \<notin> ids then p # accepted (insert (external_id p) ids) ps
      else accepted ids ps)"

text \<open>The storage never fails for a reason other than a constraint.\<close>

definition no_fault :: "nat \<Rightarrow> bool" where
  "no_fault k = False"

text \<open>The storage fails at the second statement of a batch.\<close>

definition fault_second :: "nat \<Rightarrow> bool" where
  "fault_second k \<longleftrightarrow> k = 1"

text \<open>
  A parsed statement record: the importer gives every row a transaction date, a description,
  an amount and a kind.
\<close>

definition complete :: "df_row \<Rightarrow> bool" where
  "complete r \<longleftrightarrow>
     df_txn_date r \<noteq> None \<and> df_description r \<noteq> None \<and> df_amount r \<noteq> None \<and> df_kind r \<noteq> None"

text \<open>
  Example data: a digest that maps every signature to zero (all rows collide), an empty
  database, a parsed record, and the same record with its identifier but without an amount.
\<close>

definition zero_sha :: sha256 where
  "zero_sha s = 0"

definition empty_db :: db where
  "empty_db = \<lparr>ledger = [], id_seq = 0, locked_months = []\<rparr>"

definition coffee :: df_row where
  "coffee = \<lparr>df_external_id = None, df_txn_date = Some ''2024-01-05'',
     df_posted_date = Some ''2024-01-06'', df_description = Some ''COFFEE'',
     df_amount = Some (- 45 / 10), df_kind = Some ''expense'', df_account = Some ''Chase'',
     df_category = None, df_excluded = 0, df_notes = None\<rparr>"

definition no_amount :: df_row where
  "no_amount = coffee\<lparr>df_external_id := Some ''0000000000000000-1'', df_amount := None\<rparr>"

definition coffee_1 :: df_row where
  "coffee_1 = coffee\<lparr>df_external_id := Some ''0000000000000000-1''\<rparr>"

section \<open>Strings\<close>

text \<open>The string methods the parser uses, on ASCII characters.\<close>

definition is_space :: "char \<Rightarrow> bool" where
  "is_space c \<longleftrightarrow> (of_char c :: nat) \<in> {9, 10, 11, 12, 13, 28, 29, 30, 31, 32}"

definition is_digit :: "char \<Rightarrow> bool" where
  "is_digit c \<longleftrightarrow> 48 \<le> (of_char c :: nat) \<and> (of_char c :: nat) \<le> 57"

definition digit_of :: "char \<Rightarrow> nat" where
  "digit_of c = of_char c - 48"

definition upper_char :: "char \<Rightarrow> char" where
  "upper_char c =
     (if 97 \<le> (of_char c :: nat) \<and> (of_char c :: nat) \<le> 122 then char_of ((of_char c :: nat) - 32) else c)"

definition lower_char :: "char \<Rightarrow> char" where
  "lower_char c =
     (if 65 \<le> (of_char c :: nat) \<and> (of_char c :: nat) \<le> 90 then char_of ((of_char c :: nat) + 32) else c)"

definition upper :: "string \<Rightarrow> string" where
  "upper s = map upper_char s"

definition lower :: "string \<Rightarrow> string" where
  "lower s = map lower_char s"

definition strip :: "string \<Rightarrow> string" where
  "strip s = rev (dropWhile is_space (rev (dropWhile is_space s)))"

text \<open>\<^verbatim>\<open>s.split()\<close>: the maximal runs of characters that are not whitespace.\<close>

fun split_ws_acc :: "string \<Rightarrow> string \<Rightarrow> string list" where
  "split_ws_acc w [] = (if w = [] then [] else [w])"
| "split_ws_acc w (c # cs) =
     (if is_space c then (if w = [] then split_ws_acc [] cs else w # split_ws_acc [] cs)
      else split_ws_acc (w @ [c]) cs)"

definition split_ws :: "string \<Rightarrow> string list" where
  "split_ws s = split_ws_acc [] s"

text \<open>\<^verbatim>\<open>sep.join(xs)\<close>\<close>

fun join :: "string \<Rightarrow> string list \<Rightarrow> string" where
  "join sep [] = []"
| "join sep [x] = x"
| "join sep (x # y # ys) = x @ sep @ join sep (y # ys)"

text \<open>\<^verbatim>\<open>s.split(sep)\<close> for a separator of one character.\<close>

fun split_on_acc :: "char \<Rightarrow> string \<Rightarrow> string \<Rightarrow> string list" where
  "split_on_acc sep w [] = [w]"
| "split_on_acc sep w (c # cs) =
     (if c = sep then w # split_on_acc sep [] cs else split_on_acc sep (w @ [c]) cs)"

definition split_on :: "char \<Rightarrow> string \<Rightarrow> string list" where
  "split_on sep s = split_on_acc sep [] s"

text \<open>\<^verbatim>\<open>s.replace(old, new)\<close>: the occurrences of \<open>old\<close> from the left, not overlapping.\<close>

function replace :: "string \<Rightarrow> string \<Rightarrow> string \<Rightarrow> string" where
  "replace old new s =
     (if old = [] then new @ concat (map (\<lambda>c. c # new) s)
      else if s = [] then []
      else if take (length old) s = old then new @ replace old new (drop (length old) s)
      else hd s # replace old new (tl s))"
  by pat_completeness auto
termination
  by (relation "measure (\<lambda>(old, new, s). length s)") auto

declare replace.simps [simp del]

text \<open>\<^verbatim>\<open>sub in s\<close>\<close>

fun contains :: "string \<Rightarrow> string \<Rightarrow> bool" where
  "contains sub [] = (sub = [])"
| "contains sub (c # cs) = (take (length sub) (c # cs) = sub \<or> contains sub cs)"

definition startswith :: "string \<Rightarrow> string \<Rightarrow> bool" where
  "startswith s p \<longleftrightarrow> take (length p) s = p"

definition endswith :: "string \<Rightarrow> string \<Rightarrow> bool" where
  "endswith s p \<longleftrightarrow> length p \<le> length s \<and> drop (length s - length p) s = p"

section \<open>Parser\<close>

text \<open>
  A cell of the frame that \<^verbatim>\<open>read_csv\<close> returns: missing, a text or a number. The functions
  of the Python and pandas libraries that the parser calls are parameters: \<^verbatim>\<open>float\<close> on a
  string (\<open>None\<close> when it raises \<^verbatim>\<open>ValueError\<close>; a result that is not a finite number is outside
  the model), \<^verbatim>\<open>str\<close> on a number, \<^verbatim>\<open>pd.to_datetime\<close> (\<open>None\<close> when it raises), and SHA-256.
\<close>

datatype cell = NA | Str string | Num real

record date =
  d_year :: nat
  d_month :: nat
  d_day :: nat

datatype timestamp = NaT | Timestamp date

record externals =
  py_float :: "string \<Rightarrow> real option"
  py_str :: "real \<Rightarrow> string"
  to_datetime :: "string \<Rightarrow> timestamp option"
  sha_256 :: sha256

definition cell_str :: "externals \<Rightarrow> cell \<Rightarrow> string" where
  "cell_str ext c = (case c of NA \<Rightarrow> ''nan'' | Str s \<Rightarrow> s | Num x \<Rightarrow> py_str ext x)"

subsection \<open>Dates\<close>

definition is_leap :: "nat \<Rightarrow> bool" where
  "is_leap y \<longleftrightarrow> y mod 4 = 0 \<and> (y mod 100 \<noteq> 0 \<or> y mod 400 = 0)"

definition days_in_month :: "nat \<Rightarrow> nat \<Rightarrow> nat" where
  "days_in_month y m =
     (if m = 2 then (if is_leap y then 29 else 28)
      else if m \<in> {4, 6, 9, 11} then 30 else 31)"

text \<open>The dates that \<^verbatim>\<open>datetime.date\<close> can hold: the years 1 to 9999.\<close>

definition valid_date :: "date \<Rightarrow> bool" where
  "valid_date d \<longleftrightarrow>
     1 \<le> d_year d \<and> d_year d \<le> 9999 \<and> 1 \<le> d_month d \<and> d_month d \<le> 12 \<and>
     1 \<le> d_day d \<and> d_day d \<le> days_in_month (d_year d) (d_month d)"

text \<open>\<^verbatim>\<open>date.isoformat()\<close>: the format \<^verbatim>\<open>%04d-%02d-%02d\<close>.\<close>

definition isoformat :: "date \<Rightarrow> string" where
  "isoformat d =
     zfill 4 (str_nat (d_year d)) @ ''-'' @ zfill 2 (str_nat (d_month d)) @ ''-'' @
     zfill 2 (str_nat (d_day d))"

text \<open>The number a string of decimal digits denotes.\<close>

definition nat_of_digits :: "string \<Rightarrow> nat" where
  "nat_of_digits s = foldl (\<lambda>a c. 10 * a + digit_of c) 0 s"

text \<open>
  The fields of \<^verbatim>\<open>strptime\<close>, by their regular expressions: \<^verbatim>\<open>%m\<close> is
  \<^verbatim>\<open>1[0-2]|0[1-9]|[1-9]\<close>, \<^verbatim>\<open>%d\<close> is \<^verbatim>\<open>3[01]|[12]\d|0[1-9]|[1-9]| [1-9]\<close>, \<^verbatim>\<open>%Y\<close> is four digits,
  \<^verbatim>\<open>%y\<close> is two digits (00 to 68 in the century 2000, 69 to 99 in the century 1900).
\<close>

definition field_m :: "string \<Rightarrow> nat option" where
  "field_m s =
     (if list_all is_digit s \<and> (length s = 1 \<or> length s = 2) \<and>
         1 \<le> nat_of_digits s \<and> nat_of_digits s \<le> 12
      then Some (nat_of_digits s) else None)"

definition field_d :: "string \<Rightarrow> nat option" where
  "field_d s =
     (if list_all is_digit s \<and> (length s = 1 \<or> length s = 2) \<and>
         1 \<le> nat_of_digits s \<and> nat_of_digits s \<le> 31
      then Some (nat_of_digits s)
      else if length s = 2 \<and> hd s = CHR '' '' \<and> is_digit (s ! 1) \<and> 1 \<le> digit_of (s ! 1)
      then Some (digit_of (s ! 1)) else None)"

definition field_Y :: "string \<Rightarrow> nat option" where
  "field_Y s = (if list_all is_digit s \<and> length s = 4 then Some (nat_of_digits s) else None)"

definition field_y :: "string \<Rightarrow> nat option" where
  "field_y s =
     (if list_all is_digit s \<and> length s = 2
      then Some (if nat_of_digits s \<le> 68 then 2000 + nat_of_digits s else 1900 + nat_of_digits s)
      else None)"

text \<open>Building the date raises \<^verbatim>\<open>ValueError\<close> when the day is not in the month or the year is 0.\<close>

definition make_date :: "nat option \<Rightarrow> nat option \<Rightarrow> nat option \<Rightarrow> date option" where
  "make_date y m d =
     (case (y, m, d) of
        (Some y', Some m', Some d') \<Rightarrow>
          (if valid_date \<lparr>d_year = y', d_month = m', d_day = d'\<rparr>
           then Some \<lparr>d_year = y', d_month = m', d_day = d'\<rparr> else None)
      | _ \<Rightarrow> None)"

text \<open>\<^verbatim>\<open>datetime.strptime(s, fmt).date()\<close> for the three formats; \<open>None\<close> is \<^verbatim>\<open>ValueError\<close>.\<close>

definition strptime_mdY :: "string \<Rightarrow> date option" where
  "strptime_mdY s =
     (case split_on CHR ''/'' s of
        [m, d, y] \<Rightarrow> make_date (field_Y y) (field_m m) (field_d d)
      | _ \<Rightarrow> None)"

definition strptime_mdy :: "string \<Rightarrow> date option" where
  "strptime_mdy s =
     (case split_on CHR ''/'' s of
        [m, d, y] \<Rightarrow> make_date (field_y y) (field_m m) (field_d d)
      | _ \<Rightarrow> None)"

definition strptime_Ymd :: "string \<Rightarrow> date option" where
  "strptime_Ymd s =
     (case split_on CHR ''-'' s of
        [y, m, d] \<Rightarrow> make_date (field_Y y) (field_m m) (field_d d)
      | _ \<Rightarrow> None)"

text \<open>
  \<^verbatim>\<open>ts.date().isoformat()\<close> of what \<^verbatim>\<open>pd.to_datetime\<close> returns: a timestamp, or the missing
  time \<^verbatim>\<open>NaT\<close>, whose \<^verbatim>\<open>date()\<close> is \<^verbatim>\<open>NaT\<close> again and whose \<^verbatim>\<open>isoformat()\<close> is the text NaT.
\<close>

definition timestamp_iso :: "timestamp \<Rightarrow> string" where
  "timestamp_iso t = (case t of NaT \<Rightarrow> ''NaT'' | Timestamp d \<Rightarrow> isoformat d)"

definition parse_date :: "externals \<Rightarrow> cell \<Rightarrow> string option" where
  "parse_date ext v =
     (if v = NA then None
      else let s = strip (cell_str ext v) in
        case strptime_mdY s of Some d \<Rightarrow> Some (isoformat d)
        | None \<Rightarrow>
        (case strptime_mdy s of Some d \<Rightarrow> Some (isoformat d)
         | None \<Rightarrow>
         (case strptime_Ymd s of Some d \<Rightarrow> Some (isoformat d)
          | None \<Rightarrow> map_option timestamp_iso (to_datetime ext s))))"

subsection \<open>Amounts\<close>

text \<open>A text without the currency symbol and the thousands separators.\<close>

definition amount_chars :: "string \<Rightarrow> string" where
  "amount_chars t = filter (\<lambda>c. c \<noteq> CHR ''$'' \<and> c \<noteq> CHR '','') t"

text \<open>The string that \<^verbatim>\<open>parse_amount\<close> hands to \<^verbatim>\<open>float\<close>.\<close>

definition clean_amount :: "string \<Rightarrow> string" where
  "clean_amount t =
     (let s = strip (replace '','' [] (replace ''$'' [] t))
      in if startswith s ''('' \<and> endswith s '')'' then ''-'' @ butlast (tl s) else s)"

definition parse_amount :: "externals \<Rightarrow> cell \<Rightarrow> real option" where
  "parse_amount ext v =
     (case v of
        NA \<Rightarrow> None
      | Num x \<Rightarrow> Some x
      | Str t \<Rightarrow> py_float ext (clean_amount t))"

subsection \<open>Descriptions\<close>

definition normalize_description :: "string \<Rightarrow> string" where
  "normalize_description desc =
     (if desc = [] then []
      else let s = join '' '' (split_ws (upper desc));
               s1 = replace ''  '' '' '' s;
               s2 = filter (\<lambda>ch. \<not> is_digit ch) s1
           in join '' '' (split_ws s2))"

subsection \<open>Import of a statement\<close>

text \<open>
  A row of the statement with its columns resolved: the transaction date, the post date and
  the type when the file has these columns, the description, the amount. A file without one of
  the required columns is refused before any row is read.
\<close>

record csv_row =
  c_txn :: cell
  c_post :: "cell option"
  c_desc :: cell
  c_amt :: cell
  c_type :: "cell option"

text \<open>The body of the loop: the candidate record of a row, or \<open>None\<close> when the row is dropped.\<close>

definition candidate :: "externals \<Rightarrow> string \<Rightarrow> bool \<Rightarrow> csv_row \<Rightarrow> df_row option" where
  "candidate ext account_name route r =
     (let txn_date = parse_date ext (c_txn r);
          posted = (case c_post r of Some c \<Rightarrow> parse_date ext c | None \<Rightarrow> None);
          desc = strip (cell_str ext (c_desc r));
          amt = parse_amount ext (c_amt r)
      in if txn_date = None \<or> txn_date = Some [] \<or> amt = None \<or> desc = [] then None
         else
           let t = (case c_type r of Some c \<Rightarrow> lower (strip (cell_str ext c)) | None \<Rightarrow> []);
               payment = contains ''payment'' t;
               credit = (\<not> payment \<and> route \<and> contains ''adjustment'' t \<and> 0 < the amt)
           in Some \<lparr>df_external_id = None, df_txn_date = txn_date, df_posted_date = posted,
                df_description = Some desc, df_amount = amt,
                df_kind = Some (if credit then ''income'' else ''expense''),
                df_account = Some account_name,
                df_category = (if credit then Some ''Credit Card Redemptions/Interest'' else None),
                df_excluded = (if payment then 1 else 0), df_notes = None\<rparr>)"

definition import_chase_csv :: "externals \<Rightarrow> string \<Rightarrow> bool \<Rightarrow> csv_row list \<Rightarrow> df_row list" where
  "import_chase_csv ext account_name route rows =
     assign_external_ids (sha_256 ext) (List.map_filter (candidate ext account_name route) rows)"

text \<open>
  The mapping step of the import page: \<^verbatim>\<open>df.loc[mask, "category"] =
  df.loc[mask, "description"].map(prefs)\<close> with the mask of the expense rows. The Preference
  Map is a dictionary from description to category.
\<close>

definition apply_mapping :: "(string \<rightharpoonup> string) \<Rightarrow> df_row list \<Rightarrow> df_row list" where
  "apply_mapping prefs df =
     map (\<lambda>r. if df_kind r = Some ''expense''
               then r\<lparr>df_category := Option.bind (df_description r) prefs\<rparr> else r) df"


section \<open>Notions used to state the properties of the parser\<close>

text \<open>A text that starts as a number without a sign: with a digit or with a decimal point.\<close>

definition unsigned_text :: "string \<Rightarrow> bool" where
  "unsigned_text u \<longleftrightarrow> (case u of [] \<Rightarrow> False | c # r \<Rightarrow> is_digit c \<or> c = CHR ''.'')"

text \<open>
  What \<^verbatim>\<open>float\<close> does with a minus sign before such a text: it returns the negation of what it
  returns for the text, and raises when it raises for the text.
\<close>

definition float_negates :: "externals \<Rightarrow> bool" where
  "float_negates ext \<longleftrightarrow>
     (\<forall>u. unsigned_text u \<longrightarrow> py_float ext (''-'' @ u) = map_option uminus (py_float ext u))"


section \<open>Example data for the parser\<close>

text \<open>
  A stand-in for \<^verbatim>\<open>float\<close> on plain decimal literals (an optional sign, digits, an optional
  point and digits, whitespace around): on these it returns what \<^verbatim>\<open>float\<close> returns, up to
  rounding. Every other string is mapped to \<open>None\<close> here, also the ones \<^verbatim>\<open>float\<close> accepts
  (exponents, underscores, \<^verbatim>\<open>inf\<close>, \<^verbatim>\<open>nan\<close>).
\<close>

definition unsigned_decimal :: "string \<Rightarrow> real option" where
  "unsigned_decimal s =
     (case split_on CHR ''.'' s of
        [i] \<Rightarrow> (if i \<noteq> [] \<and> list_all is_digit i then Some (real (nat_of_digits i)) else None)
      | [i, f] \<Rightarrow>
          (if list_all is_digit i \<and> list_all is_digit f \<and> (i \<noteq> [] \<or> f \<noteq> [])
           then Some (real (nat_of_digits i) + real (nat_of_digits f) / 10 ^ length f) else None)
      | _ \<Rightarrow> None)"

definition plain_decimal :: "string \<Rightarrow> real option" where
  "plain_decimal s =
     (case strip s of
        [] \<Rightarrow> None
      | c # r \<Rightarrow>
          (if c = CHR ''-'' then map_option uminus (unsigned_decimal r)
           else if c = CHR ''+'' then unsigned_decimal r
           else unsigned_decimal (c # r)))"

text \<open>
  Example externals: the stand-in above, no text for numbers (the examples have no numeric
  cells), a \<^verbatim>\<open>pd.to_datetime\<close> that always raises, the zero digest.
\<close>

definition example_ext :: externals where
  "example_ext = \<lparr>py_float = plain_decimal, py_str = (\<lambda>x. []), to_datetime = (\<lambda>s. None),
     sha_256 = zero_sha\<rparr>"

definition example_prefs :: "string \<rightharpoonup> string" where
  "example_prefs = map_of [(''STARBUCKS'', ''Coffee'')]"

definition starbucks :: "string \<Rightarrow> df_row" where
  "starbucks desc = coffee\<lparr>df_description := Some desc\<rparr>"

definition csv_line :: "string \<Rightarrow> string \<Rightarrow> string \<Rightarrow> csv_row" where
  "csv_line txn desc amt =
     \<lparr>c_txn = Str txn, c_post = None, c_desc = Str desc, c_amt = Str amt, c_type = None\<rparr>"

definition coffee_line :: csv_row where
  "coffee_line = csv_line ''01/05/2024'' ''COFFEE'' ''-4.50''"

section \<open>Month locks, fetching and updating\<close>

text \<open>
  The text of a cell, and the month that \<^verbatim>\<open>month_of\<close> and \<^verbatim>\<open>.str.slice(5,7)\<close> read from the
  transaction date of a stored row (no month for a cell that is not a text).
\<close>

definition sql_text :: "sqlval \<Rightarrow> string" where
  "sql_text v = (case v of SText s \<Rightarrow> s | _ \<Rightarrow> [])"

definition cell_month :: "sqlval \<Rightarrow> string" where
  "cell_month v = month_of (sql_text v)"

text \<open>
  The condition \<^verbatim>\<open>substr(txn_date,1,4)=?\<close> with the parameter \<^verbatim>\<open>str(year)\<close>. A date that is
  not a text does not match: the rows that \<^verbatim>\<open>insert_rows\<close> stores hold texts.
\<close>

definition year_is :: "int \<Rightarrow> sqlval \<Rightarrow> bool" where
  "year_is year v = (case v of SText s \<Rightarrow> take 4 s = str_int year | _ \<Rightarrow> False)"

definition get_locked_months :: "int \<Rightarrow> db \<Rightarrow> string set" where
  "get_locked_months year d = set (map snd (filter (\<lambda>ym. fst ym = year) (locked_months d)))"

text \<open>\<^verbatim>\<open>save_locked_months\<close>: the months of the year are replaced by the given ones.\<close>

definition save_locked_months :: "int \<Rightarrow> string list \<Rightarrow> db \<Rightarrow> db" where
  "save_locked_months year ms d =
     d\<lparr>locked_months := filter (\<lambda>ym. fst ym \<noteq> year) (locked_months d) @
          map (\<lambda>m. (year, m)) (sort (remdups ms))\<rparr>"

text \<open>\<^verbatim>\<open>fetch_year\<close>: the rows of the year, ordered by date, then by id.\<close>

definition fetch_year :: "int \<Rightarrow> db \<Rightarrow> ledger_row list" where
  "fetch_year year d =
     sort_key (\<lambda>r. (sql_text (txn_date r), row_id r)) (filter (\<lambda>r. year_is year (txn_date r)) (ledger d))"

text \<open>
  The query of the year selector of the page: the distinct values of
  \<^verbatim>\<open>substr(txn_date,1,4)\<close>, in descending order. The page reads each one as a number with
  \<^verbatim>\<open>int\<close> and passes the selected number to \<^verbatim>\<open>fetch_year\<close>.
\<close>

definition year_texts :: "db \<Rightarrow> string list" where
  "year_texts d = rev (sort (remdups (map (\<lambda>r. take 4 (sql_text (txn_date r))) (ledger d))))"

text \<open>The columns of the ledger by their names.\<close>

definition get_col :: "string \<Rightarrow> ledger_row \<Rightarrow> sqlval" where
  "get_col k r =
     (if k = ''txn_date'' then txn_date r
      else if k = ''description'' then description r
      else if k = ''amount'' then amount r
      else if k = ''account'' then account r
      else if k = ''category'' then category r
      else if k = ''excluded'' then excluded r
      else if k = ''notes'' then row_notes r
      else if k = ''posted_date'' then posted_date r
      else if k = ''kind'' then kind r
      else if k = ''external_id'' then external_id r
      else if k = ''created_at'' then created_at r
      else SNull)"

definition set_col :: "string \<Rightarrow> sqlval \<Rightarrow> ledger_row \<Rightarrow> ledger_row" where
  "set_col k v r =
     (if k = ''txn_date'' then r\<lparr>txn_date := v\<rparr>
      else if k = ''description'' then r\<lparr>description := v\<rparr>
      else if k = ''amount'' then r\<lparr>amount := v\<rparr>
      else if k = ''account'' then r\<lparr>account := v\<rparr>
      else if k = ''category'' then r\<lparr>category := v\<rparr>
      else if k = ''excluded'' then r\<lparr>excluded := v\<rparr>
      else if k = ''notes'' then r\<lparr>row_notes := v\<rparr>
      else if k = ''posted_date'' then r\<lparr>posted_date := v\<rparr>
      else if k = ''kind'' then r\<lparr>kind := v\<rparr>
      else r)"

definition allowed :: "string list" where
  "allowed = [''txn_date'', ''description'', ''amount'', ''account'', ''category'', ''excluded'',
     ''notes'', ''posted_date'', ''kind'']"

text \<open>\<^verbatim>\<open>UPDATE ledger SET ... WHERE id=?\<close> on the rows of the table.\<close>

definition update_where_id :: "nat \<Rightarrow> (ledger_row \<Rightarrow> ledger_row) \<Rightarrow> ledger_row list \<Rightarrow> ledger_row list" where
  "update_where_id i f rows = map (\<lambda>r. if row_id r = i then f r else r) rows"

text \<open>
  \<^verbatim>\<open>update_txn_by_id\<close>: the keys that are not allowed are left out; without a key nothing is
  executed; a NULL in a NOT NULL column raises \<^verbatim>\<open>IntegrityError\<close>. The first argument says whether
  the statement fails for another reason.
\<close>

definition update_txn_by_id :: "bool \<Rightarrow> nat \<Rightarrow> (string \<times> sqlval) list \<Rightarrow> db \<Rightarrow> py_error + db" where
  "update_txn_by_id failing txn_id updates d =
     (let set_cols = filter (\<lambda>kv. fst kv \<in> set allowed) updates;
          upd = (\<lambda>r. foldl (\<lambda>r kv. set_col (fst kv) (snd kv) r) r set_cols)
      in if set_cols = [] then Inr d
         else if failing then Inl OperationalError
         else if \<exists>r \<in> set (ledger d). row_id r = txn_id \<and> \<not> not_null_ok (upd r) then Inl IntegrityError
         else Inr (d\<lparr>ledger := update_where_id txn_id upd (ledger d)\<rparr>))"

text \<open>
  The loop of \<^verbatim>\<open>update_category_for_description\<close> over the selected rows: a row of a locked
  month is passed over, the others get the category by their id.
\<close>

fun categorize_loop :: "(nat \<Rightarrow> bool) \<Rightarrow> string \<Rightarrow> string set \<Rightarrow> nat \<Rightarrow> ledger_row list \<Rightarrow> db \<Rightarrow> py_error + db" where
  "categorize_loop fault cat locked k [] d = Inr d"
| "categorize_loop fault cat locked k (r # rs) d =
     (if cell_month (txn_date r) \<in> locked then categorize_loop fault cat locked (Suc k) rs d
      else if fault k then Inl OperationalError
      else categorize_loop fault cat locked (Suc k) rs
             (d\<lparr>ledger := update_where_id (row_id r) (\<lambda>x. x\<lparr>category := SText cat\<rparr>) (ledger d)\<rparr>))"

text \<open>
  \<^verbatim>\<open>update_category_for_description\<close>, in one transaction: the uncategorized expense rows of
  the year with this description.
\<close>

definition update_category_for_description ::
  "(nat \<Rightarrow> bool) \<Rightarrow> string \<Rightarrow> string \<Rightarrow> int \<Rightarrow> string set \<Rightarrow> db \<Rightarrow> db \<times> (py_error + unit)"
where
  "update_category_for_description fault desc cat year locked d =
     (let rows = filter (\<lambda>r. description r = SText desc \<and> kind r = SText ''expense'' \<and>
                    (category r = SNull \<or> category r = SText []) \<and> year_is year (txn_date r)) (ledger d)
      in case categorize_loop fault cat locked 0 rows d of
           Inl e \<Rightarrow> (d, Inl e)
         | Inr d' \<Rightarrow> (d', Inr ()))"

text \<open>
  The page Admin: Ledger. The table shows the rows of the year that pass the filters of the
  page (\<open>shown\<close>), with the column \<^verbatim>\<open>locked\<close>; the user edits the cells (\<open>user\<close>), but the columns
  \<^verbatim>\<open>id\<close> and \<^verbatim>\<open>locked\<close> are disabled. \<^verbatim>\<open>str\<close> on the value of a cell is a parameter.
\<close>

definition edit_cols :: "string list" where
  "edit_cols = [''txn_date'', ''description'', ''amount'', ''kind'', ''account'', ''category'',
     ''excluded'', ''notes'']"

definition row_diff :: "(sqlval \<Rightarrow> string) \<Rightarrow> ledger_row \<Rightarrow> ledger_row \<Rightarrow> (string \<times> sqlval) list" where
  "row_diff pystr original new =
     concat (map (\<lambda>col.
       let ov = get_col col original; nv = get_col col new
       in if ov = SNull \<and> nv = SNull then []
          else if pystr ov \<noteq> pystr nv
            then [(col, if col \<in> {''category'', ''notes''} \<and> (nv = SText [] \<or> nv = SNull) then SNull else nv)]
          else []) edit_cols)"

text \<open>
  The loop of Save edits over the rows of the table: the original row, the edited row, the
  column \<^verbatim>\<open>locked\<close>. Every \<^verbatim>\<open>update_txn_by_id\<close> commits on its own, so an exception keeps the
  updates made before it.
\<close>

fun save_loop ::
  "(nat \<Rightarrow> bool) \<Rightarrow> (sqlval \<Rightarrow> string) \<Rightarrow> nat \<Rightarrow> (ledger_row \<times> ledger_row \<times> bool) list \<Rightarrow> db \<Rightarrow> nat \<Rightarrow>
   db \<times> (py_error + nat)"
where
  "save_loop fault pystr k [] d changes = (d, Inr changes)"
| "save_loop fault pystr k ((original, new, locked) # rest) d changes =
     (if locked then save_loop fault pystr (Suc k) rest d changes
      else if row_diff pystr original new = [] then save_loop fault pystr (Suc k) rest d changes
      else case update_txn_by_id (fault k) (row_id new) (row_diff pystr original new) d of
             Inl e \<Rightarrow> (d, Inl e)
           | Inr d' \<Rightarrow> save_loop fault pystr (Suc k) rest d' (changes + 1))"

definition edit_table ::
  "(ledger_row \<Rightarrow> bool) \<Rightarrow> (ledger_row \<Rightarrow> ledger_row) \<Rightarrow> int \<Rightarrow> db \<Rightarrow> (ledger_row \<times> ledger_row \<times> bool) list"
where
  "edit_table shown user year d =
     map (\<lambda>r. (r, (user r)\<lparr>row_id := row_id r\<rparr>, cell_month (txn_date r) \<in> get_locked_months year d))
       (filter shown (fetch_year year d))"

definition save_edits ::
  "(nat \<Rightarrow> bool) \<Rightarrow> (sqlval \<Rightarrow> string) \<Rightarrow> (ledger_row \<Rightarrow> bool) \<Rightarrow> (ledger_row \<Rightarrow> ledger_row) \<Rightarrow> int \<Rightarrow> db \<Rightarrow>
   db \<times> (py_error + nat)"
where
  "save_edits fault pystr shown user year d = save_loop fault pystr 0 (edit_table shown user year d) d 0"

section \<open>Notions used to state the properties of the locks\<close>

text \<open>
  What the updates keep of the ledger they start from: the ids of the rows, by position, and
  the rows of the locked months.
\<close>

definition keeps :: "string set \<Rightarrow> ledger_row list \<Rightarrow> ledger_row list \<Rightarrow> bool" where
  "keeps locked rows0 rows \<longleftrightarrow>
     map row_id rows = map row_id rows0 \<and>
     (\<forall>i < length rows0. cell_month (txn_date (rows0 ! i)) \<in> locked \<longrightarrow> rows ! i = rows0 ! i)"

text \<open>
  A table of the editor over the ledger: every original row is a row of the ledger, the id of
  the edited row is the id of the original, and the column locked says whether the month of
  the original row is locked.
\<close>

definition well_formed :: "string set \<Rightarrow> ledger_row list \<Rightarrow> (ledger_row \<times> ledger_row \<times> bool) list \<Rightarrow> bool" where
  "well_formed locked rows0 ts \<longleftrightarrow>
     (\<forall>t \<in> set ts. fst t \<in> set rows0 \<and> row_id (fst (snd t)) = row_id (fst t) \<and>
        snd (snd t) = (cell_month (txn_date (fst t)) \<in> locked))"

text \<open>The primary key of the ledger: the ids are distinct and not above the counter.\<close>

definition db_ok :: "db \<Rightarrow> bool" where
  "db_ok d \<longleftrightarrow> distinct (map row_id (ledger d)) \<and> (\<forall>r \<in> set (ledger d). row_id r \<le> id_seq d)"

text \<open>
  Example data: a ledger with an uncategorized expense in January and one in February 2024,
  January locked; a stand-in for \<^verbatim>\<open>str\<close> on cells; a page without filters; a user who sets
  every category to Food.
\<close>

definition january :: ledger_row where
  "january = (insert_params ''t0'' coffee_1)\<lparr>row_id := 1\<rparr>"

definition february :: ledger_row where
  "february = january\<lparr>row_id := 2, external_id := SText ''0000000000000000-2'',
     txn_date := SText ''2024-02-05'', posted_date := SText ''2024-02-06''\<rparr>"

definition lock_db :: db where
  "lock_db = \<lparr>ledger = [january, february], id_seq = 2, locked_months = [(2024, ''01'')]\<rparr>"

definition example_pystr :: "sqlval \<Rightarrow> string" where
  "example_pystr v =
     (case v of SNull \<Rightarrow> ''None'' | SText s \<Rightarrow> s | SReal x \<Rightarrow> fmt_2f x | SInteger i \<Rightarrow> str_int i)"

definition all_shown :: "ledger_row \<Rightarrow> bool" where
  "all_shown r = True"

definition to_food :: "ledger_row \<Rightarrow> ledger_row" where
  "to_food r = r\<lparr>category := SText ''Food''\<rparr>"

text \<open>The ledger after the import of a statement with one row, dated in the year 999.\<close>

definition year_999_db :: db where
  "year_999_db =
     fst (insert_rows no_fault ''t0'' empty_db
       (import_chase_csv example_ext ''Chase'' True [csv_line ''01/01/0999'' ''COFFEE'' ''-4.50'']))"

section \<open>Properties of the summary\<close>

lemma MONTH_COLS_eq:
  "MONTH_COLS = [''01'', ''02'', ''03'', ''04'', ''05'', ''06'', ''07'', ''08'', ''09'', ''10'', ''11'', ''12'']"
  by code_simp

lemmas summary_eval =
  exp_pivot_def inc_pivot_def pivot_def exp_rows_def inc_rows_def MONTH_COLS_eq pivot_cell_def
  slice_def derived_def signed_to_spend_def column_sums_def total_row_def total_spent_def
  total_income_def income_by_month_def spend_by_month_def saved_by_month_def

lemma collect_rate:
  "collect (map (\<lambda>i. rate (f i) (g i)) xs) = Inr (map (\<lambda>i. if g i \<noteq> 0 then f i / g i else 0) xs)"
  by (induction xs) (simp_all add: rate_def truediv_def)

lemma compute_summary_eq:
  "compute_summary df ec ic =
     Inr \<lparr>exp_table = exp_pivot df ec @ [total_row ''Total Spent'' (column_sums (exp_pivot df ec)) (total_spent df ec)],
          inc_table = inc_pivot df ic @ [total_row ''Total Net Income'' (column_sums (inc_pivot df ic)) (total_income df ic)],
          saved_row = total_row ''Total Saved'' (saved_by_month df ec ic) (total_income df ic - total_spent df ec),
          savings_rate_row = \<lparr>rate_label = ''Savings Rate'',
            rate_months = map (\<lambda>i. if income_by_month df ic ! i \<noteq> 0
               then saved_by_month df ec ic ! i / income_by_month df ic ! i else 0) [0..<12],
            rate_ytd = (if total_income df ic \<noteq> 0
               then (total_income df ic - total_spent df ec) / total_income df ic else 0)\<rparr>,
          savings_rate_ytd = (if total_income df ic \<noteq> 0
               then (total_income df ic - total_spent df ec) / total_income df ic else 0)\<rparr>"
  unfolding compute_summary_def Let_def collect_rate
  by (simp add: rate_def truediv_def)

lemma length_MONTH_COLS: "length MONTH_COLS = 12"
  by (simp add: MONTH_COLS_def)

lemma derived_sel:
  "label (derived p) = fst p" "months (derived p) = snd p"
  "ytd_totals (derived p) = sum_list (snd p)"
  "average_per_month (derived p) = sum_list (snd p) / 12"
  "average_per_week (derived p) = sum_list (snd p) / 52"
  "average_per_day (derived p) = sum_list (snd p) / 364"
  by (simp_all add: derived_def Let_def)

lemma example_exp_pivot:
  "exp_pivot example_df [''Groceries'', ''Rent''] =
    [\<lparr>label = ''Groceries'', months = [50, 0, 0, 0, 0, 0, 0, 0, 0, 0, 0, 0],
       average_per_month = 25 / 6, ytd_totals = 50, average_per_week = 25 / 26,
       average_per_day = 25 / 182\<rparr>,
     \<lparr>label = ''Rent'', months = [0, 1000, 0, 0, 0, 0, 0, 0, 0, 0, 0, 0],
       average_per_month = 250 / 3, ytd_totals = 1000, average_per_week = 250 / 13,
       average_per_day = 250 / 91\<rparr>]"
  by (simp add: summary_eval example_df_def)

lemma example_inc_pivot:
  "inc_pivot example_df [''Salary''] =
    [\<lparr>label = ''Salary'', months = [3000, 0, 0, 0, 0, 0, 0, 0, 0, 0, 0, 0],
       average_per_month = 250, ytd_totals = 3000, average_per_week = 750 / 13,
       average_per_day = 750 / 91\<rparr>]"
  by (simp add: summary_eval example_df_def)

lemma example_totals:
  "total_spent example_df [''Groceries'', ''Rent''] = 1050"
  "total_income example_df [''Salary''] = 3000"
  by (simp_all add: total_spent_def total_income_def example_exp_pivot example_inc_pivot)

lemma negative_income_pivot:
  "inc_pivot negative_income_df [''Salary''] =
    [\<lparr>label = ''Salary'', months = [- 100, 0, 0, 0, 0, 0, 0, 0, 0, 0, 0, 0],
       average_per_month = - (25 / 3), ytd_totals = - 100, average_per_week = - (25 / 13),
       average_per_day = - (25 / 91)\<rparr>]"
  "exp_pivot negative_income_df [] = []"
  by (simp_all add: summary_eval negative_income_df_def)

text \<open>
  Claim C7. \<^verbatim>\<open>compute_summary\<close> returns, and every category row of its expense and income
  tables has twelve month values and the four derived columns with the fixed divisors:
  YTD total = sum of the months, average per month = sum / 12, average per week = YTD / 52,
  average per day = YTD / 364.
\<close>

theorem derived_columns:
  "\<exists>s. compute_summary df expense_cats income_cats = Inr s \<and>
     (\<forall>r \<in> set (butlast (exp_table s)) \<union> set (butlast (inc_table s)).
        length (months r) = 12 \<and>
        ytd_totals r = sum_list (months r) \<and>
        average_per_month r = sum_list (months r) / 12 \<and>
        average_per_week r = ytd_totals r / 52 \<and>
        average_per_day r = ytd_totals r / 364)"
  by (auto simp: compute_summary_eq exp_pivot_def inc_pivot_def pivot_def derived_sel length_MONTH_COLS)

text \<open>
  Witness for C7: the Groceries row of the example scenario is a category row, and the theorem
  gives its derived columns.
\<close>

theorem derived_columns_witness:
  "\<exists>s. compute_summary example_df [''Groceries'', ''Rent''] [''Salary''] = Inr s \<and>
     hd (exp_table s) \<in> set (butlast (exp_table s)) \<and>
     label (hd (exp_table s)) = ''Groceries'' \<and>
     months (hd (exp_table s)) = [50, 0, 0, 0, 0, 0, 0, 0, 0, 0, 0, 0] \<and>
     ytd_totals (hd (exp_table s)) = 50 \<and>
     average_per_month (hd (exp_table s)) = 50 / 12 \<and>
     average_per_week (hd (exp_table s)) = 50 / 52 \<and>
     average_per_day (hd (exp_table s)) = 50 / 364"
proof -
  obtain s where s: "compute_summary example_df [''Groceries'', ''Rent''] [''Salary''] = Inr s"
    and d: "\<forall>r \<in> set (butlast (exp_table s)) \<union> set (butlast (inc_table s)).
        length (months r) = 12 \<and> ytd_totals r = sum_list (months r) \<and>
        average_per_month r = sum_list (months r) / 12 \<and>
        average_per_week r = ytd_totals r / 52 \<and> average_per_day r = ytd_totals r / 364"
    using derived_columns [of example_df "[''Groceries'', ''Rent'']" "[''Salary'']"] by blast
  have t: "butlast (exp_table s) = exp_pivot example_df [''Groceries'', ''Rent'']"
    using s by (auto simp: compute_summary_eq)
  have h: "hd (exp_table s) = hd (exp_pivot example_df [''Groceries'', ''Rent''])"
    using s by (auto simp: compute_summary_eq example_exp_pivot)
  have m: "hd (exp_table s) \<in> set (butlast (exp_table s))"
    unfolding t h by (simp add: example_exp_pivot)
  have v: "months (hd (exp_table s)) = [50, 0, 0, 0, 0, 0, 0, 0, 0, 0, 0, 0]"
    "label (hd (exp_table s)) = ''Groceries''"
    unfolding h by (simp_all add: example_exp_pivot)
  from d m have "ytd_totals (hd (exp_table s)) = sum_list (months (hd (exp_table s))) \<and>
        average_per_month (hd (exp_table s)) = sum_list (months (hd (exp_table s))) / 12 \<and>
        average_per_week (hd (exp_table s)) = ytd_totals (hd (exp_table s)) / 52 \<and>
        average_per_day (hd (exp_table s)) = ytd_totals (hd (exp_table s)) / 364"
    by blast
  with s m v show ?thesis by simp
qed

lemma column_sums_nth:
  "i < 12 \<Longrightarrow> column_sums rows ! i = sum_list (map (\<lambda>r. months r ! i) rows)"
  by (simp add: column_sums_def)

lemma income_by_month_nth:
  "i < 12 \<Longrightarrow> income_by_month df ic ! i =
     sum_list (map (\<lambda>c. pivot_cell fr_amount (inc_rows df) c (MONTH_COLS ! i)) ic)"
  by (simp add: income_by_month_def column_sums_nth inc_pivot_def pivot_def derived_sel
      length_MONTH_COLS comp_def)

lemma spend_by_month_nth:
  "i < 12 \<Longrightarrow> spend_by_month df ec ! i =
     sum_list (map (\<lambda>c. pivot_cell (\<lambda>r. signed_to_spend (fr_amount r)) (exp_rows df) c (MONTH_COLS ! i)) ec)"
  by (simp add: spend_by_month_def column_sums_nth exp_pivot_def pivot_def derived_sel
      length_MONTH_COLS comp_def)

lemma saved_by_month_nth:
  "i < 12 \<Longrightarrow> saved_by_month df ec ic ! i = income_by_month df ic ! i - spend_by_month df ec ! i"
  by (simp add: saved_by_month_def)

lemma sum_list_rows_columns:
  "\<forall>r \<in> set rows. length (months r) = n \<Longrightarrow>
   sum_list (map (\<lambda>r. sum_list (months r)) rows) =
   sum_list (map (\<lambda>i. sum_list (map (\<lambda>r. months r ! i) rows)) [0..<n])"
proof (induction rows)
  case Nil
  then show ?case by simp
next
  case (Cons r rows)
  have "sum_list (months r) = sum_list (map (\<lambda>i. months r ! i) [0..<n])"
    using Cons.prems by (simp add: map_nth [symmetric] del: map_nth) (metis map_nth)
  with Cons show ?case
    by (simp add: sum_list_addf)
qed

lemma total_income_sum: "total_income df ic = sum_list (income_by_month df ic)"
  unfolding total_income_def income_by_month_def column_sums_def
  using sum_list_rows_columns [of "inc_pivot df ic" 12]
  by (simp add: inc_pivot_def pivot_def derived_sel length_MONTH_COLS comp_def)

lemma total_spent_sum: "total_spent df ec = sum_list (spend_by_month df ec)"
  unfolding total_spent_def spend_by_month_def column_sums_def
  using sum_list_rows_columns [of "exp_pivot df ec" 12]
  by (simp add: exp_pivot_def pivot_def derived_sel length_MONTH_COLS comp_def)

text \<open>
  Claim C2, as stated, fails: the guard of the code is \<^verbatim>\<open>if inc_m\<close> (income not zero), not
  income > 0. With a single income row of amount -100 in January, the income of the month and
  of the year is -100, and both savings rates are 1, not 0.
\<close>

theorem savings_rate_positive_income_only_counterexample:
  "income_by_month negative_income_df [''Salary''] ! 0 = - 100 \<and>
   saved_by_month negative_income_df [] [''Salary''] ! 0 = - 100 \<and>
   total_income negative_income_df [''Salary''] = - 100 \<and>
   map_sum id (rate_months \<circ> savings_rate_row) (compute_summary negative_income_df [] [''Salary''])
     = Inr [1, 0, 0, 0, 0, 0, 0, 0, 0, 0, 0, 0] \<and>
   map_sum id savings_rate_ytd (compute_summary negative_income_df [] [''Salary'']) = Inr 1"
  by (simp add: compute_summary_eq income_by_month_def saved_by_month_def spend_by_month_def
      total_income_def total_spent_def negative_income_pivot column_sums_def upt_rec)

text \<open>
  Claim C2, amended. \<^verbatim>\<open>compute_summary\<close> always returns (no division raises); the savings
  rate of month \<open>i\<close> is 0 when the income of the month is 0 and saved / income otherwise
  (also for a negative income), and the YTD savings rate is 0 when the total income is 0 and
  total saved / total income otherwise.
\<close>

theorem savings_rate_guard:
  "\<exists>s. compute_summary df expense_cats income_cats = Inr s \<and>
     length (rate_months (savings_rate_row s)) = 12 \<and>
     (\<forall>i < 12. rate_months (savings_rate_row s) ! i =
        (if income_by_month df income_cats ! i = 0 then 0
         else saved_by_month df expense_cats income_cats ! i / income_by_month df income_cats ! i)) \<and>
     savings_rate_ytd s =
        (if total_income df income_cats = 0 then 0
         else (total_income df income_cats - total_spent df expense_cats) / total_income df income_cats) \<and>
     rate_ytd (savings_rate_row s) = savings_rate_ytd s"
  by (simp add: compute_summary_eq)

text \<open>
  Witness for C2: in the example scenario January has income 3000 and spend 50, February has no
  income, and the year saves 1950 of 3000.
\<close>

theorem savings_rate_guard_witness:
  "\<exists>s. compute_summary example_df [''Groceries'', ''Rent''] [''Salary''] = Inr s \<and>
     (0::nat) < 12 \<and> rate_months (savings_rate_row s) ! 0 = 59 / 60 \<and>
     (1::nat) < 12 \<and> rate_months (savings_rate_row s) ! 1 = 0 \<and>
     savings_rate_ytd s = 13 / 20"
proof -
  have i: "income_by_month example_df [''Salary''] = [3000, 0, 0, 0, 0, 0, 0, 0, 0, 0, 0, 0]"
    by (simp add: income_by_month_def example_inc_pivot column_sums_def upt_rec)
  have e: "spend_by_month example_df [''Groceries'', ''Rent''] = [50, 1000, 0, 0, 0, 0, 0, 0, 0, 0, 0, 0]"
    by (simp add: spend_by_month_def example_exp_pivot column_sums_def upt_rec)
  have s: "saved_by_month example_df [''Groceries'', ''Rent''] [''Salary''] ! 0 = 2950"
    "saved_by_month example_df [''Groceries'', ''Rent''] [''Salary''] ! 1 = - 1000"
    by (simp_all add: saved_by_month_nth i e)
  show ?thesis
    using savings_rate_guard [of example_df "[''Groceries'', ''Rent'']" "[''Salary'']"]
    by (auto simp: i s example_totals)
qed

lemma pivot_cell_none:
  "\<forall>r \<in> set rows. fr_category r \<noteq> Some c \<Longrightarrow> pivot_cell val rows c m = 0"
  by (simp add: pivot_cell_def filter_False)

text \<open>
  Claim C6. The rows of the expense table are labelled by the caller's category list, in its
  order, followed by the total row; a listed category without matching expense rows has twelve
  zero month values; a category of the data that is not in the list labels no category row.
\<close>

theorem expense_table_rows:
  "\<exists>s. compute_summary df expense_cats income_cats = Inr s \<and>
     map label (exp_table s) = expense_cats @ [''Total Spent''] \<and>
     (\<forall>i < length expense_cats.
        (\<forall>r \<in> set (exp_rows df). fr_category r \<noteq> Some (expense_cats ! i)) \<longrightarrow>
        months (exp_table s ! i) = replicate 12 0) \<and>
     (\<forall>r \<in> set df. \<forall>c. fr_category r = Some c \<and> c \<notin> set expense_cats \<longrightarrow>
        c \<notin> label ` set (butlast (exp_table s)))"
proof -
  have l: "map label (exp_pivot df expense_cats) = expense_cats"
    by (simp add: exp_pivot_def pivot_def derived_sel comp_def)
  have z: "months (exp_pivot df expense_cats ! i) = replicate 12 0"
    if "i < length expense_cats" "\<forall>r \<in> set (exp_rows df). fr_category r \<noteq> Some (expense_cats ! i)" for i
  proof -
    have "pivot_cell val (exp_rows df) (expense_cats ! i) = (\<lambda>m. 0)" for val
      using that(2) by (auto simp: pivot_cell_none)
    with that(1) show ?thesis
      by (simp add: exp_pivot_def pivot_def derived_sel map_replicate_const length_MONTH_COLS)
  qed
  have n: "label ` set (exp_pivot df expense_cats) = set expense_cats"
    using l by (metis list.set_map)
  have k: "length (exp_pivot df expense_cats) = length expense_cats"
    by (simp add: exp_pivot_def pivot_def)
  show ?thesis
    by (simp add: compute_summary_eq l z n k nth_append total_row_def)
qed

text \<open>
  Witness for C6: with the list Groceries, Travel on the example scenario, Travel has no
  transactions and is a zero row, and Rent, present in the data only, has no row.
\<close>

theorem expense_table_rows_witness:
  "\<exists>s. compute_summary example_df [''Groceries'', ''Travel''] [''Salary''] = Inr s \<and>
     map label (exp_table s) = [''Groceries'', ''Travel'', ''Total Spent''] \<and>
     (1::nat) < length [''Groceries'', ''Travel''] \<and>
     (\<forall>r \<in> set (exp_rows example_df). fr_category r \<noteq> Some ([''Groceries'', ''Travel''] ! 1)) \<and>
     months (exp_table s ! 1) = replicate 12 0 \<and>
     example_df ! 1 \<in> set example_df \<and> fr_category (example_df ! 1) = Some ''Rent'' \<and>
     ''Rent'' \<notin> set [''Groceries'', ''Travel''] \<and>
     ''Rent'' \<notin> label ` set (butlast (exp_table s))"
proof -
  have a: "\<forall>r \<in> set (exp_rows example_df). fr_category r \<noteq> Some ([''Groceries'', ''Travel''] ! 1)"
    by (simp add: exp_rows_def example_df_def)
  have b: "example_df ! 1 \<in> set example_df" "fr_category (example_df ! 1) = Some ''Rent''"
    by (simp_all add: example_df_def)
  obtain s where s: "compute_summary example_df [''Groceries'', ''Travel''] [''Salary''] = Inr s"
    and l: "map label (exp_table s) = [''Groceries'', ''Travel''] @ [''Total Spent'']"
    and z: "\<forall>i < length [''Groceries'', ''Travel''].
        (\<forall>r \<in> set (exp_rows example_df). fr_category r \<noteq> Some ([''Groceries'', ''Travel''] ! i)) \<longrightarrow>
        months (exp_table s ! i) = replicate 12 0"
    and n: "\<forall>r \<in> set example_df. \<forall>c. fr_category r = Some c \<and> c \<notin> set [''Groceries'', ''Travel''] \<longrightarrow>
        c \<notin> label ` set (butlast (exp_table s))"
    using expense_table_rows [of example_df "[''Groceries'', ''Travel'']" "[''Salary'']"] by blast
  have c: "''Rent'' \<notin> set [''Groceries'', ''Travel'']"
    by simp
  have "months (exp_table s ! 1) = replicate 12 0"
    using z a by simp
  moreover have "''Rent'' \<notin> label ` set (butlast (exp_table s))"
    using n b c by blast
  ultimately show ?thesis
    using s l a b c by simp
qed

section \<open>Properties of the identity assignment\<close>

lemma length_hex_of: "length (hex_of n w) = n"
  by (induction n arbitrary: w) simp_all

lemma length_base_hash: "length (base_hash sha s) = 16"
  by (simp add: base_hash_def hexdigest_def length_hex_of)

lemma str_nat_decode:
  "foldl (\<lambda>a c. 10 * a + (of_char c - 48)) 0 (str_nat n) = n"
proof (induction n rule: str_nat.induct)
  case (1 n)
  show ?case
  proof (cases "n < 10")
    case True
    then show ?thesis
      by (subst str_nat.simps) (simp add: digit_char_def)
  next
    case False
    have "n mod 10 < 10" by simp
    then have d: "of_char (digit_char (n mod 10)) = 48 + n mod 10"
      by (simp add: digit_char_def)
    from False 1 show ?thesis
      by (subst str_nat.simps) (simp add: d)
  qed
qed

lemma str_nat_inj: "str_nat m = str_nat n \<Longrightarrow> m = n"
  by (metis str_nat_decode)

lemma id_inj:
  assumes "length h = length h'" "h @ ''-'' @ str_nat i = h' @ ''-'' @ str_nat j"
  shows "h = h' \<and> i = j"
  using assms by (auto dest: str_nat_inj)

lemma cumcount_ge:
  "(h, c) \<in> set (zip hs (cumcount seen hs)) \<Longrightarrow> count_list seen h \<le> c"
proof (induction hs arbitrary: seen)
  case Nil
  then show ?case by simp
next
  case (Cons a hs)
  from Cons.prems consider "h = a" "c = count_list seen a"
    | "(h, c) \<in> set (zip hs (cumcount (seen @ [a]) hs))"
    by auto
  then show ?case
  proof cases
    case 1
    then show ?thesis by simp
  next
    case 2
    from Cons.IH [OF 2] show ?thesis
      by (simp split: if_splits)
  qed
qed

lemma length_cumcount: "length (cumcount seen hs) = length hs"
  by (induction hs arbitrary: seen) simp_all

lemma distinct_cumcount: "distinct (zip hs (cumcount seen hs))"
proof (induction hs arbitrary: seen)
  case Nil
  then show ?case by simp
next
  case (Cons a hs)
  have "(a, count_list seen a) \<notin> set (zip hs (cumcount (seen @ [a]) hs))"
  proof
    assume "(a, count_list seen a) \<in> set (zip hs (cumcount (seen @ [a]) hs))"
    from cumcount_ge [OF this] show False by simp
  qed
  with Cons.IH show ?case by simp
qed

lemma cumcount_nth:
  "i < length hs \<Longrightarrow> cumcount seen hs ! i = count_list (seen @ take i hs) (hs ! i)"
proof (induction hs arbitrary: seen i)
  case Nil
  then show ?case by simp
next
  case (Cons a hs)
  show ?case
  proof (cases i)
    case 0
    then show ?thesis by simp
  next
    case (Suc j)
    with Cons.prems have "j < length hs" by simp
    from Cons.IH [OF this, of "seen @ [a]"] Suc show ?thesis by simp
  qed
qed

lemma make_external_ids_eq:
  "make_external_ids sha df =
     map (\<lambda>(h, i). h @ ''-'' @ str_nat (i + 1))
       (zip (map (\<lambda>r. base_hash sha (signature r)) df)
            (cumcount [] (map (\<lambda>r. base_hash sha (signature r)) df)))"
  by (simp add: make_external_ids_def Let_def)

lemma length_make_external_ids: "length (make_external_ids sha df) = length df"
  by (simp add: make_external_ids_eq length_cumcount)

lemma distinct_make_external_ids: "distinct (make_external_ids sha df)"
  unfolding make_external_ids_eq
proof (rule distinct_map [THEN iffD2], rule conjI [OF distinct_cumcount], rule inj_onI)
  fix x y
  assume x: "x \<in> set (zip (map (\<lambda>r. base_hash sha (signature r)) df)
            (cumcount [] (map (\<lambda>r. base_hash sha (signature r)) df)))"
    and y: "y \<in> set (zip (map (\<lambda>r. base_hash sha (signature r)) df)
            (cumcount [] (map (\<lambda>r. base_hash sha (signature r)) df)))"
    and e: "(case x of (h, i) \<Rightarrow> h @ ''-'' @ str_nat (i + 1)) = (case y of (h, i) \<Rightarrow> h @ ''-'' @ str_nat (i + 1))"
  obtain h i where xe: "x = (h, i)" by (cases x)
  obtain h' j where ye: "y = (h', j)" by (cases y)
  from x xe have "h \<in> set (map (\<lambda>r. base_hash sha (signature r)) df)"
    by (auto dest: set_zip_leftD)
  then have lh: "length h = 16" by (auto simp: length_base_hash)
  from y ye have "h' \<in> set (map (\<lambda>r. base_hash sha (signature r)) df)"
    by (auto dest: set_zip_leftD)
  then have lh': "length h' = 16" by (auto simp: length_base_hash)
  from e xe ye have "h @ ''-'' @ str_nat (i + 1) = h' @ ''-'' @ str_nat (j + 1)" by simp
  with lh lh' have "h = h' \<and> i + 1 = j + 1" by (intro id_inj) simp_all
  with xe ye show "x = y" by simp
qed

lemma make_external_ids_nth:
  assumes "i < length df"
  shows "make_external_ids sha df ! i =
     base_hash sha (signature (df ! i)) @ ''-'' @
     str_nat (Suc (count_list (take i (map (\<lambda>r. base_hash sha (signature r)) df)) (base_hash sha (signature (df ! i)))))"
  using assms by (simp add: make_external_ids_eq length_cumcount cumcount_nth)

section \<open>Properties of the insertion\<close>

lemma sql_insert_cases:
  "sql_insert f d p =
     (if f then Inl OperationalError else if violates d p then Inl IntegrityError
      else Inr (d\<lparr>ledger := ledger d @ [p\<lparr>row_id := Suc (id_seq d)\<rparr>], id_seq := Suc (id_seq d)\<rparr>))"
  by (simp add: sql_insert_def violates_def)

lemma not_null_ok_now: "not_null_ok (insert_params now r) = not_null_ok (insert_params now' r)"
  by (simp add: not_null_ok_def insert_params_def)

lemma violates_now: "violates d (insert_params now r) = violates d (insert_params now' r)"
  by (simp add: violates_def not_null_ok_def insert_params_def)

lemma violates_mono:
  "violates d p \<Longrightarrow> set (ledger d) \<subseteq> set (ledger d') \<Longrightarrow> violates d' p"
  by (auto simp: violates_def)

lemma insert_loop_step:
  "insert_loop fault now k (r # rs) d i s =
     (if fault k then Inl OperationalError
      else if violates d (insert_params now r) then insert_loop fault now (Suc k) rs d i (Suc s)
      else insert_loop fault now (Suc k) rs
             (d\<lparr>ledger := ledger d @ [(insert_params now r)\<lparr>row_id := Suc (id_seq d)\<rparr>],
                id_seq := Suc (id_seq d)\<rparr>) (Suc i) s)"
  by (simp add: sql_insert_cases)

declare insert_loop.simps(2) [simp del]

lemma length_filter_le:
  "(\<And>x. x \<in> set xs \<Longrightarrow> P x \<Longrightarrow> Q x) \<Longrightarrow> length (filter P xs) \<le> length (filter Q xs)"
  by (induction xs) auto

lemma insert_loop_fault:
  "\<exists>j < length rs. fault (k + j) \<Longrightarrow> insert_loop fault now k rs d i s = Inl OperationalError"
proof (induction rs arbitrary: k d i s)
  case Nil
  then show ?case by simp
next
  case (Cons r rs)
  show ?case
  proof (cases "fault k")
    case True
    then show ?thesis by (simp add: insert_loop_step)
  next
    case False
    from Cons.prems obtain j where j: "j < Suc (length rs)" "fault (k + j)" by auto
    with False obtain j' where "j = Suc j'" by (cases j) auto
    with j have "\<exists>j < length rs. fault (Suc k + j)" by auto
    from Cons.IH [OF this] False show ?thesis
      by (simp add: insert_loop_step)
  qed
qed

lemma insert_loop_shape:
  "\<forall>j < length rs. \<not> fault (k + j) \<Longrightarrow>
   \<exists>new i' s'. insert_loop fault now k rs d i s =
       Inr (d\<lparr>ledger := ledger d @ new, id_seq := id_seq d + length new\<rparr>, i', s') \<and>
     i' = i + length new \<and> i' + s' = i + s + length rs \<and>
     length (filter (\<lambda>r. violates d (insert_params now r)) rs) \<le> s' - s \<and> s \<le> s' \<and>
     (\<forall>p \<in> set new. not_null_ok p \<and> external_id p \<notin> set (map external_id (ledger d)) \<and>
        (\<exists>r \<in> set rs. p\<lparr>row_id := 0\<rparr> = insert_params now r)) \<and>
     distinct (map external_id new) \<and>
     (\<forall>r \<in> set rs. violates (d\<lparr>ledger := ledger d @ new, id_seq := id_seq d + length new\<rparr>) (insert_params now r))"
proof (induction rs arbitrary: k d i s)
  case Nil
  show ?case
    by (rule exI [of _ "[]"]) simp
next
  case (Cons r rs)
  from Cons.prems have nf: "\<not> fault k" by auto
  from Cons.prems have rest: "\<forall>j < length rs. \<not> fault (Suc k + j)" by auto
  show ?case
  proof (cases "violates d (insert_params now r)")
    case True
    from Cons.IH [OF rest, of d i "Suc s"] obtain new i' s' where
      h: "insert_loop fault now (Suc k) rs d i (Suc s) =
            Inr (d\<lparr>ledger := ledger d @ new, id_seq := id_seq d + length new\<rparr>, i', s')"
        "i' = i + length new" "i' + s' = i + Suc s + length rs"
        "length (filter (\<lambda>r. violates d (insert_params now r)) rs) \<le> s' - Suc s" "Suc s \<le> s'"
        "\<forall>p \<in> set new. not_null_ok p \<and> external_id p \<notin> set (map external_id (ledger d)) \<and>
           (\<exists>r \<in> set rs. p\<lparr>row_id := 0\<rparr> = insert_params now r)"
        "distinct (map external_id new)"
        "\<forall>r \<in> set rs. violates (d\<lparr>ledger := ledger d @ new, id_seq := id_seq d + length new\<rparr>) (insert_params now r)"
      by blast
    have v: "violates (d\<lparr>ledger := ledger d @ new, id_seq := id_seq d + length new\<rparr>) (insert_params now r)"
      using True by (rule violates_mono) simp
    show ?thesis
      apply (rule exI [of _ new], rule exI [of _ i'], rule exI [of _ s'])
      using True nf h v by (auto simp: insert_loop_step)
  next
    case False
    define p where "p = (insert_params now r)\<lparr>row_id := Suc (id_seq d)\<rparr>"
    define d1 where "d1 = d\<lparr>ledger := ledger d @ [p], id_seq := Suc (id_seq d)\<rparr>"
    from Cons.IH [OF rest, of d1 "Suc i" s] obtain new i' s' where
      h: "insert_loop fault now (Suc k) rs d1 (Suc i) s =
            Inr (d1\<lparr>ledger := ledger d1 @ new, id_seq := id_seq d1 + length new\<rparr>, i', s')"
        "i' = Suc i + length new" "i' + s' = Suc i + s + length rs"
        "length (filter (\<lambda>r. violates d1 (insert_params now r)) rs) \<le> s' - s" "s \<le> s'"
        "\<forall>p \<in> set new. not_null_ok p \<and> external_id p \<notin> set (map external_id (ledger d1)) \<and>
           (\<exists>r \<in> set rs. p\<lparr>row_id := 0\<rparr> = insert_params now r)"
        "distinct (map external_id new)"
        "\<forall>r \<in> set rs. violates (d1\<lparr>ledger := ledger d1 @ new, id_seq := id_seq d1 + length new\<rparr>) (insert_params now r)"
      by blast
    have e: "d1\<lparr>ledger := ledger d1 @ new, id_seq := id_seq d1 + length new\<rparr> =
          d\<lparr>ledger := ledger d @ (p # new), id_seq := id_seq d + length (p # new)\<rparr>"
      by (simp add: d1_def)
    have pe: "external_id p = external_id (insert_params now r)" "not_null_ok p"
      "p\<lparr>row_id := 0\<rparr> = insert_params now r"
      using False by (simp_all add: p_def violates_def not_null_ok_def insert_params_def)
    have pn: "external_id p \<notin> set (map external_id (ledger d))"
      using False pe by (simp add: violates_def)
    have m: "length (filter (\<lambda>r. violates d (insert_params now r)) rs)
        \<le> length (filter (\<lambda>r. violates d1 (insert_params now r)) rs)"
      by (rule length_filter_le) (auto simp: d1_def elim: violates_mono)
    have vr: "violates (d\<lparr>ledger := ledger d @ (p # new), id_seq := id_seq d + length (p # new)\<rparr>) (insert_params now r)"
      using pe by (simp add: violates_def)
    have step: "insert_loop fault now k (r # rs) d i s = insert_loop fault now (Suc k) rs d1 (Suc i) s"
      using False nf by (simp add: insert_loop_step d1_def p_def)
    show ?thesis
      apply (rule exI [of _ "p # new"], rule exI [of _ i'], rule exI [of _ s'])
      unfolding step h(1) e
      using h(2-7) h(8) [unfolded e] False pe pn m vr
      by (auto simp: d1_def)
  qed
qed


lemma insert_loop_accepted:
  "\<forall>j < length rs. \<not> fault (k + j) \<Longrightarrow>
   \<exists>new i' s'. insert_loop fault now k rs d i s =
       Inr (d\<lparr>ledger := ledger d @ new, id_seq := id_seq d + length new\<rparr>, i', s') \<and>
     map (\<lambda>p. p\<lparr>row_id := 0\<rparr>) new =
       accepted (set (map external_id (ledger d))) (map (insert_params now) rs) \<and>
     map row_id new = [Suc (id_seq d) ..< Suc (id_seq d + length new)]"
proof (induction rs arbitrary: k d i s)
  case Nil
  show ?case
    by (rule exI [of _ "[]"]) simp
next
  case (Cons r rs)
  from Cons.prems have nf: "\<not> fault k" by auto
  from Cons.prems have rest: "\<forall>j < length rs. \<not> fault (Suc k + j)" by auto
  show ?case
  proof (cases "violates d (insert_params now r)")
    case True
    from Cons.IH [OF rest, of d i "Suc s"] obtain new i' s' where
      h: "insert_loop fault now (Suc k) rs d i (Suc s) =
            Inr (d\<lparr>ledger := ledger d @ new, id_seq := id_seq d + length new\<rparr>, i', s')"
        "map (\<lambda>p. p\<lparr>row_id := 0\<rparr>) new =
           accepted (set (map external_id (ledger d))) (map (insert_params now) rs)"
        "map row_id new = [Suc (id_seq d) ..< Suc (id_seq d + length new)]"
      by blast
    have a: "accepted (set (map external_id (ledger d))) (map (insert_params now) (r # rs)) =
        accepted (set (map external_id (ledger d))) (map (insert_params now) rs)"
      using True by (auto simp: violates_def)
    show ?thesis
      apply (rule exI [of _ new], rule exI [of _ i'], rule exI [of _ s'])
      unfolding a using True nf h by (simp add: insert_loop_step)
  next
    case False
    define p where "p = (insert_params now r)\<lparr>row_id := Suc (id_seq d)\<rparr>"
    define d1 where "d1 = d\<lparr>ledger := ledger d @ [p], id_seq := Suc (id_seq d)\<rparr>"
    from Cons.IH [OF rest, of d1 "Suc i" s] obtain new i' s' where
      h: "insert_loop fault now (Suc k) rs d1 (Suc i) s =
            Inr (d1\<lparr>ledger := ledger d1 @ new, id_seq := id_seq d1 + length new\<rparr>, i', s')"
        "map (\<lambda>p. p\<lparr>row_id := 0\<rparr>) new =
           accepted (set (map external_id (ledger d1))) (map (insert_params now) rs)"
        "map row_id new = [Suc (id_seq d1) ..< Suc (id_seq d1 + length new)]"
      by blast
    have e: "d1\<lparr>ledger := ledger d1 @ new, id_seq := id_seq d1 + length new\<rparr> =
          d\<lparr>ledger := ledger d @ (p # new), id_seq := id_seq d + length (p # new)\<rparr>"
      by (simp add: d1_def)
    have pe: "external_id p = external_id (insert_params now r)"
      "p\<lparr>row_id := 0\<rparr> = insert_params now r" "row_id p = Suc (id_seq d)"
      by (simp_all add: p_def insert_params_def)
    have ids: "set (map external_id (ledger d1)) =
        insert (external_id (insert_params now r)) (set (map external_id (ledger d)))"
      by (simp add: d1_def pe)
    have a: "accepted (set (map external_id (ledger d))) (map (insert_params now) (r # rs)) =
        insert_params now r # accepted (set (map external_id (ledger d1))) (map (insert_params now) rs)"
      using False unfolding ids by (simp add: violates_def)
    have n: "map row_id (p # new) = [Suc (id_seq d) ..< Suc (id_seq d + length (p # new))]"
    proof -
      have "[Suc (id_seq d) ..< Suc (id_seq d + length (p # new))] =
          Suc (id_seq d) # [Suc (id_seq d1) ..< Suc (id_seq d1 + length new)]"
        by (subst upt_rec) (simp add: d1_def del: upt_Suc)
      with h(3) pe(3) show ?thesis by (simp del: upt_Suc)
    qed
    have step: "insert_loop fault now k (r # rs) d i s = insert_loop fault now (Suc k) rs d1 (Suc i) s"
      using False nf by (simp add: insert_loop_step d1_def p_def)
    show ?thesis
      apply (rule exI [of _ "p # new"], rule exI [of _ i'], rule exI [of _ s'])
      unfolding step h(1) e a using h(2) pe n by simp
  qed
qed

lemma insert_loop_all_violate:
  "\<forall>r \<in> set rs. violates d (insert_params now r) \<Longrightarrow> \<forall>j < length rs. \<not> fault (k + j) \<Longrightarrow>
   insert_loop fault now k rs d i s = Inr (d, i, s + length rs)"
proof (induction rs arbitrary: k s)
  case Nil
  then show ?case by simp
next
  case (Cons r rs)
  from Cons.prems have nf: "\<not> fault k" by auto
  from Cons.prems have rest: "\<forall>j < length rs. \<not> fault (Suc k + j)" by auto
  from Cons.prems have v: "violates d (insert_params now r)" "\<forall>r \<in> set rs. violates d (insert_params now r)"
    by auto
  from Cons.IH [OF v(2) rest, of "Suc s"] nf v(1) show ?case
    by (simp add: insert_loop_step)
qed

lemma insert_loop_all_fresh:
  "\<forall>r \<in> set rs. not_null_ok (insert_params now r) \<and>
       external_id (insert_params now r) \<notin> set (map external_id (ledger d)) \<Longrightarrow>
   distinct (map (\<lambda>r. external_id (insert_params now r)) rs) \<Longrightarrow>
   \<forall>j < length rs. \<not> fault (k + j) \<Longrightarrow>
   \<exists>new. insert_loop fault now k rs d i s =
       Inr (d\<lparr>ledger := ledger d @ new, id_seq := id_seq d + length new\<rparr>, i + length rs, s) \<and>
     map (\<lambda>p. p\<lparr>row_id := 0\<rparr>) new = map (insert_params now) rs"
proof (induction rs arbitrary: k d i)
  case Nil
  show ?case by (rule exI [of _ "[]"]) simp
next
  case (Cons r rs)
  from Cons.prems have nf: "\<not> fault k" by auto
  from Cons.prems have rest: "\<forall>j < length rs. \<not> fault (Suc k + j)" by auto
  define p where "p = (insert_params now r)\<lparr>row_id := Suc (id_seq d)\<rparr>"
  define d1 where "d1 = d\<lparr>ledger := ledger d @ [p], id_seq := Suc (id_seq d)\<rparr>"
  have nv: "\<not> violates d (insert_params now r)"
    using Cons.prems(1) by (simp add: violates_def)
  have pe: "external_id p = external_id (insert_params now r)" "p\<lparr>row_id := 0\<rparr> = insert_params now r"
    by (simp_all add: p_def insert_params_def)
  have a: "\<forall>r \<in> set rs. not_null_ok (insert_params now r) \<and>
       external_id (insert_params now r) \<notin> set (map external_id (ledger d1))"
  proof
    fix r' assume r': "r' \<in> set rs"
    with Cons.prems(2) have "external_id (insert_params now r') \<noteq> external_id (insert_params now r)"
      by (auto simp: image_iff)
    with r' Cons.prems(1) show "not_null_ok (insert_params now r') \<and>
       external_id (insert_params now r') \<notin> set (map external_id (ledger d1))"
      by (auto simp: d1_def pe)
  qed
  have b: "distinct (map (\<lambda>r. external_id (insert_params now r)) rs)"
    using Cons.prems(2) by simp
  from Cons.IH [OF a b rest, of "Suc i"] obtain new where
    h: "insert_loop fault now (Suc k) rs d1 (Suc i) s =
         Inr (d1\<lparr>ledger := ledger d1 @ new, id_seq := id_seq d1 + length new\<rparr>, Suc i + length rs, s)"
       "map (\<lambda>p. p\<lparr>row_id := 0\<rparr>) new = map (insert_params now) rs"
    by blast
  have e: "d1\<lparr>ledger := ledger d1 @ new, id_seq := id_seq d1 + length new\<rparr> =
          d\<lparr>ledger := ledger d @ (p # new), id_seq := id_seq d + length (p # new)\<rparr>"
    by (simp add: d1_def)
  have step: "insert_loop fault now k (r # rs) d i s = insert_loop fault now (Suc k) rs d1 (Suc i) s"
    using nv nf by (simp add: insert_loop_step d1_def p_def)
  show ?case
    apply (rule exI [of _ "p # new"])
    unfolding step h(1) e using h(2) pe by simp
qed

lemma assign_external_ids_length: "length (assign_external_ids sha df) = length df"
  by (simp add: assign_external_ids_def length_make_external_ids)

lemma assign_external_ids_nth:
  "i < length df \<Longrightarrow>
   assign_external_ids sha df ! i = (df ! i)\<lparr>df_external_id := Some (make_external_ids sha df ! i)\<rparr>"
  by (simp add: assign_external_ids_def length_make_external_ids)

lemma map_external_id_assign:
  "map df_external_id (assign_external_ids sha df) = map Some (make_external_ids sha df)"
  by (rule nth_equalityI)
    (simp_all add: assign_external_ids_length length_make_external_ids assign_external_ids_nth)

lemma complete_assign:
  assumes "\<forall>r \<in> set df. complete r" "r \<in> set (assign_external_ids sha df)"
  shows "not_null_ok (insert_params now r)"
proof -
  from assms(2) obtain i where i: "i < length df" "r = assign_external_ids sha df ! i"
    by (auto simp: in_set_conv_nth assign_external_ids_length)
  with assms(1) have "complete (df ! i)" by simp
  with i show ?thesis
    by (auto simp: assign_external_ids_nth complete_def not_null_ok_def insert_params_def
        bind_text_def bind_real_def)
qed

lemma external_id_params: "external_id (insert_params now r) = bind_text (df_external_id r)"
  by (simp add: insert_params_def)

lemma insert_rows_no_fault:
  "\<exists>new inserted skipped.
     insert_rows no_fault now d df =
       (d\<lparr>ledger := ledger d @ new, id_seq := id_seq d + length new\<rparr>, Inr (inserted, skipped)) \<and>
     (\<forall>r \<in> set df. violates (d\<lparr>ledger := ledger d @ new, id_seq := id_seq d + length new\<rparr>) (insert_params now r))"
proof -
  have "\<forall>j < length df. \<not> no_fault (0 + j)" by (simp add: no_fault_def)
  from insert_loop_shape [OF this, of now d 0 0] show ?thesis
    unfolding insert_rows_def by fastforce
qed

text \<open>
  Claim C1. For every batch of parsed statement records with the identifiers of
  \<^verbatim>\<open>make_external_ids\<close>, and every ledger: after a first \<^verbatim>\<open>insert_rows\<close> of the batch, a second
  call over the same batch returns inserted = 0 and skipped = the number of rows, leaves the
  database as it is, and every row finds its identifier already stored (the uniqueness
  constraint). The storage is assumed not to fail for other reasons.
\<close>

theorem reimport_inserts_nothing:
  assumes "\<forall>r \<in> set rows. complete r"
  shows "\<exists>d1 inserted skipped.
     insert_rows no_fault now d (assign_external_ids sha rows) = (d1, Inr (inserted, skipped)) \<and>
     insert_rows no_fault now' d1 (assign_external_ids sha rows) = (d1, Inr (0, length rows)) \<and>
     (\<forall>r \<in> set (assign_external_ids sha rows).
        bind_text (df_external_id r) \<in> set (map external_id (ledger d1)))"
proof -
  let ?df = "assign_external_ids sha rows"
  obtain new inserted skipped where
    f: "insert_rows no_fault now d ?df =
       (d\<lparr>ledger := ledger d @ new, id_seq := id_seq d + length new\<rparr>, Inr (inserted, skipped))"
    and v: "\<forall>r \<in> set ?df. violates (d\<lparr>ledger := ledger d @ new, id_seq := id_seq d + length new\<rparr>) (insert_params now r)"
    using insert_rows_no_fault [of now d ?df] by blast
  let ?d1 = "d\<lparr>ledger := ledger d @ new, id_seq := id_seq d + length new\<rparr>"
  have v': "\<forall>r \<in> set ?df. violates ?d1 (insert_params now' r)"
    using v violates_now by blast
  have nf: "\<forall>j < length ?df. \<not> no_fault (0 + j)" by (simp add: no_fault_def)
  have s: "insert_rows no_fault now' ?d1 ?df = (?d1, Inr (0, length rows))"
    unfolding insert_rows_def insert_loop_all_violate [OF v' nf]
    by (simp add: assign_external_ids_length)
  have u: "bind_text (df_external_id r) \<in> set (map external_id (ledger ?d1))" if "r \<in> set ?df" for r
  proof -
    from assms that have "not_null_ok (insert_params now r)" by (rule complete_assign)
    with v that show ?thesis
      by (auto simp: violates_def external_id_params)
  qed
  from f s u show ?thesis by blast
qed


lemma hex_char_zero: "hex_char 0 = CHR ''0''"
  by code_simp

lemma hex_of_zero: "hex_of n 0 = replicate n CHR ''0''"
  by (induction n) (simp_all add: hex_char_zero replicate_append_same)

lemma base_hash_zero_sha: "base_hash zero_sha s = ''0000000000000000''"
proof -
  have "take 16 (replicate 64 CHR ''0'') = replicate 16 CHR ''0''" by simp
  also have "replicate 16 CHR ''0'' = ''0000000000000000''" by code_simp
  finally show ?thesis
    by (simp add: base_hash_def zero_sha_def hexdigest_def hex_of_zero)
qed

lemma str_nat_small: "str_nat (Suc 0) = ''1''" "str_nat (Suc (Suc 0)) = ''2''"
  by code_simp+

lemma coffee_ids:
  "make_external_ids zero_sha [coffee, coffee] = [''0000000000000000-1'', ''0000000000000000-2'']"
  by (simp add: make_external_ids_def base_hash_zero_sha str_nat_small)

lemma coffee_batch:
  "assign_external_ids zero_sha [coffee, coffee] =
     [coffee\<lparr>df_external_id := Some ''0000000000000000-1''\<rparr>,
      coffee\<lparr>df_external_id := Some ''0000000000000000-2''\<rparr>]"
  by (simp add: assign_external_ids_def coffee_ids)

lemma coffee_complete: "complete coffee"
  by (simp add: complete_def coffee_def)

lemma coffee_first_import:
  "insert_rows no_fault ''t0'' empty_db (assign_external_ids zero_sha [coffee, coffee]) =
     (\<lparr>ledger =
         [(insert_params ''t0'' (coffee\<lparr>df_external_id := Some ''0000000000000000-1''\<rparr>))\<lparr>row_id := 1\<rparr>,
          (insert_params ''t0'' (coffee\<lparr>df_external_id := Some ''0000000000000000-2''\<rparr>))\<lparr>row_id := 2\<rparr>],
        id_seq = 2, locked_months = []\<rparr>,
      Inr (2, 0))"
  unfolding coffee_batch
  by (simp add: insert_rows_def insert_loop_step violates_def not_null_ok_def
      insert_params_def bind_text_def bind_real_def coffee_def empty_db_def no_fault_def)


text \<open>Every candidate record of the importer is a parsed statement record.\<close>

lemma candidate_complete: "candidate ext acct route c = Some r \<Longrightarrow> complete r"
  by (auto simp: candidate_def complete_def Let_def split: if_splits)

lemma candidates_complete: "\<forall>r \<in> set (List.map_filter (candidate ext acct route) rows). complete r"
  by (auto simp: List.map_filter_def dest: candidate_complete)

lemma coffee_candidates:
  "List.map_filter (candidate example_ext ''Chase'' True) [coffee_line, coffee_line] =
     [coffee\<lparr>df_posted_date := None\<rparr>, coffee\<lparr>df_posted_date := None\<rparr>]"
  by code_simp

text \<open>
  Witness for C1: a statement with the same line twice, imported twice into the empty
  database.
\<close>

theorem reimport_inserts_nothing_witness:
  "list_all complete (List.map_filter (candidate example_ext ''Chase'' True) [coffee_line, coffee_line]) \<and>
   insert_rows no_fault ''t1''
     (fst (insert_rows no_fault ''t0'' empty_db
        (import_chase_csv example_ext ''Chase'' True [coffee_line, coffee_line])))
     (import_chase_csv example_ext ''Chase'' True [coffee_line, coffee_line]) =
   (fst (insert_rows no_fault ''t0'' empty_db
        (import_chase_csv example_ext ''Chase'' True [coffee_line, coffee_line])),
    Inr (0, 2))"
proof -
  let ?rows = "List.map_filter (candidate example_ext ''Chase'' True) [coffee_line, coffee_line]"
  have c: "\<forall>r \<in> set ?rows. complete r"
    by (rule candidates_complete)
  have l: "length ?rows = 2"
    unfolding coffee_candidates by simp
  have i: "import_chase_csv example_ext ''Chase'' True [coffee_line, coffee_line] =
      assign_external_ids zero_sha ?rows"
    by (simp add: import_chase_csv_def example_ext_def)
  from reimport_inserts_nothing [OF c, of "''t0''" empty_db zero_sha "''t1''"]
  obtain d1 inserted skipped where
    "insert_rows no_fault ''t0'' empty_db (assign_external_ids zero_sha ?rows) = (d1, Inr (inserted, skipped))"
    "insert_rows no_fault ''t1'' d1 (assign_external_ids zero_sha ?rows) = (d1, Inr (0, length ?rows))"
    by blast
  with c l show ?thesis
    unfolding i by (simp add: list_all_iff)
qed

lemma make_external_ids_signature:
  "map signature df = map signature df' \<Longrightarrow> make_external_ids sha df = make_external_ids sha df'"
proof -
  assume "map signature df = map signature df'"
  then have "map (base_hash sha) (map signature df) = map (base_hash sha) (map signature df')"
    by simp
  then have "map (\<lambda>r. base_hash sha (signature r)) df = map (\<lambda>r. base_hash sha (signature r)) df'"
    by (simp add: comp_def)
  then show ?thesis
    by (simp add: make_external_ids_def)
qed

lemma insert_rows_all_fresh:
  assumes c: "\<forall>r \<in> set df. complete r"
    and f: "\<forall>e \<in> set (make_external_ids sha df). SText e \<notin> set (map external_id (ledger d))"
  shows "\<exists>new. insert_rows no_fault now d (assign_external_ids sha df) =
       (d\<lparr>ledger := ledger d @ new, id_seq := id_seq d + length df\<rparr>, Inr (length df, 0)) \<and>
     map (\<lambda>p. p\<lparr>row_id := 0\<rparr>) new = map (insert_params now) (assign_external_ids sha df)"
proof -
  let ?rs = "assign_external_ids sha df"
  have ids: "map (\<lambda>r. external_id (insert_params now r)) ?rs = map SText (make_external_ids sha df)"
  proof -
    have "map (\<lambda>r. external_id (insert_params now r)) ?rs = map bind_text (map df_external_id ?rs)"
      by (simp add: external_id_params comp_def)
    also have "\<dots> = map SText (make_external_ids sha df)"
      by (simp add: map_external_id_assign bind_text_def comp_def)
    finally show ?thesis .
  qed
  have a: "\<forall>r \<in> set ?rs. not_null_ok (insert_params now r) \<and>
       external_id (insert_params now r) \<notin> set (map external_id (ledger d))"
  proof
    fix r assume r: "r \<in> set ?rs"
    then have "external_id (insert_params now r) \<in> set (map (\<lambda>r. external_id (insert_params now r)) ?rs)"
      by simp
    then have "external_id (insert_params now r) \<in> SText ` set (make_external_ids sha df)"
      unfolding ids by simp
    then obtain e where "e \<in> set (make_external_ids sha df)" "external_id (insert_params now r) = SText e"
      by auto
    with f have "external_id (insert_params now r) \<notin> set (map external_id (ledger d))"
      by metis
    with complete_assign [OF c r]
    show "not_null_ok (insert_params now r) \<and>
       external_id (insert_params now r) \<notin> set (map external_id (ledger d))"
      by simp
  qed
  have b: "distinct (map (\<lambda>r. external_id (insert_params now r)) ?rs)"
    unfolding ids by (simp add: distinct_map distinct_make_external_ids inj_on_def)
  have nf: "\<forall>j < length ?rs. \<not> no_fault (0 + j)" by (simp add: no_fault_def)
  from insert_loop_all_fresh [OF a b nf, of 0 0] obtain new where
    h: "insert_loop no_fault now 0 ?rs d 0 0 =
       Inr (d\<lparr>ledger := ledger d @ new, id_seq := id_seq d + length new\<rparr>, 0 + length ?rs, 0)"
      "map (\<lambda>p. p\<lparr>row_id := 0\<rparr>) new = map (insert_params now) ?rs"
    by blast
  from h(2) have "length new = length df"
    by (metis length_map assign_external_ids_length)
  with h show ?thesis
    by (intro exI [of _ new]) (simp add: insert_rows_def assign_external_ids_length)
qed

text \<open>
  Claim C5. The identifiers of a batch are pairwise distinct, one per row; the identifier of
  row \<open>i\<close> is the hash of its signature, a dash, and one plus the number of earlier rows of the
  batch with the same hash (the per-group suffix, in batch order); batches with the same
  signatures in the same order get the same identifiers; and when no identifier of the batch is
  stored yet, \<^verbatim>\<open>insert_rows\<close> inserts every parsed record of the batch, identical ones included.
\<close>

theorem duplicates_get_distinct_ids:
  "distinct (make_external_ids sha df) \<and>
   length (make_external_ids sha df) = length df \<and>
   (\<forall>i < length df. make_external_ids sha df ! i =
      base_hash sha (signature (df ! i)) @ ''-'' @
      str_nat (Suc (count_list (map (\<lambda>r. base_hash sha (signature r)) (take i df))
        (base_hash sha (signature (df ! i)))))) \<and>
   (\<forall>df'. map signature df' = map signature df \<longrightarrow>
      make_external_ids sha df' = make_external_ids sha df) \<and>
   ((\<forall>r \<in> set df. complete r) \<and>
    (\<forall>e \<in> set (make_external_ids sha df). SText e \<notin> set (map external_id (ledger d))) \<longrightarrow>
    (\<exists>new. insert_rows no_fault now d (assign_external_ids sha df) =
       (d\<lparr>ledger := ledger d @ new, id_seq := id_seq d + length df\<rparr>, Inr (length df, 0)) \<and>
     map (\<lambda>p. p\<lparr>row_id := 0\<rparr>) new = map (insert_params now) (assign_external_ids sha df)))"
  using insert_rows_all_fresh [of df sha d now]
  by (auto simp: distinct_make_external_ids length_make_external_ids make_external_ids_nth
      take_map intro: make_external_ids_signature)

text \<open>
  Witness for C5: two identical records get the suffixes 1 and 2 and are both inserted into
  the empty database.
\<close>

theorem duplicates_get_distinct_ids_witness:
  "make_external_ids zero_sha [coffee, coffee] = [''0000000000000000-1'', ''0000000000000000-2''] \<and>
   distinct (make_external_ids zero_sha [coffee, coffee]) \<and>
   complete coffee \<and> ledger empty_db = [] \<and>
   snd (insert_rows no_fault ''t0'' empty_db (assign_external_ids zero_sha [coffee, coffee])) = Inr (2, 0) \<and>
   length (ledger (fst (insert_rows no_fault ''t0'' empty_db (assign_external_ids zero_sha [coffee, coffee])))) = 2"
proof -
  have c: "\<forall>r \<in> set [coffee, coffee]. complete r"
    by (simp add: coffee_complete)
  have f: "\<forall>e \<in> set (make_external_ids zero_sha [coffee, coffee]).
      SText e \<notin> set (map external_id (ledger empty_db))"
    by (simp add: empty_db_def)
  from duplicates_get_distinct_ids [of zero_sha "[coffee, coffee]" empty_db "''t0''"] c f
  obtain new where d: "distinct (make_external_ids zero_sha [coffee, coffee])"
    and i: "insert_rows no_fault ''t0'' empty_db (assign_external_ids zero_sha [coffee, coffee]) =
       (empty_db\<lparr>ledger := ledger empty_db @ new, id_seq := id_seq empty_db + length [coffee, coffee]\<rparr>,
        Inr (length [coffee, coffee], 0))"
    and n: "map (\<lambda>p. p\<lparr>row_id := 0\<rparr>) new =
       map (insert_params ''t0'') (assign_external_ids zero_sha [coffee, coffee])"
    by blast
  from n have "length new = 2"
    by (metis length_map assign_external_ids_length length_Cons list.size(3) numeral_2_eq_2)
  with d i show ?thesis
    by (simp add: coffee_ids coffee_complete empty_db_def)
qed

text \<open>
  Claim C8, amended. When the storage does not fail, \<^verbatim>\<open>insert_rows\<close> returns the pair (number
  inserted, number skipped), which adds up to the number of rows. The stored rows are kept as
  they are and the inserted rows follow them, with the next ids of the table. The inserted
  rows are exactly the rows of the batch that the table accepts, each judged on its own in the
  order of the batch: the rows without a NULL in a NOT NULL column whose identifier is neither
  stored nor inserted by an earlier row of the batch. So a row that violates no constraint is
  inserted, and after the call the identifier of every row that fits the NOT NULL columns is
  stored; every row that violates a constraint of the table (its identifier is stored already,
  or a NOT NULL column gets no value) is counted as skipped. When the storage fails for
  another reason at some row, the error propagates and the transaction is rolled back.
\<close>

theorem insert_rows_counts:
  "((\<forall>k < length df. \<not> fault k) \<longrightarrow>
     (\<exists>new inserted skipped.
        insert_rows fault now d df =
          (d\<lparr>ledger := ledger d @ new, id_seq := id_seq d + length new\<rparr>, Inr (inserted, skipped)) \<and>
        inserted = length new \<and> inserted + skipped = length df \<and>
        map (\<lambda>p. p\<lparr>row_id := 0\<rparr>) new =
          accepted (set (map external_id (ledger d))) (map (insert_params now) df) \<and>
        map row_id new = [Suc (id_seq d) ..< Suc (id_seq d + length new)] \<and>
        (\<forall>p \<in> set new. not_null_ok p \<and> external_id p \<notin> set (map external_id (ledger d)) \<and>
           (\<exists>r \<in> set df. p\<lparr>row_id := 0\<rparr> = insert_params now r)) \<and>
        distinct (map external_id new) \<and>
        (\<forall>r \<in> set df. not_null_ok (insert_params now r) \<longrightarrow>
           external_id (insert_params now r) \<in> set (map external_id (ledger d @ new))) \<and>
        length (filter (\<lambda>r. violates d (insert_params now r)) df) \<le> skipped)) \<and>
   ((\<exists>k < length df. fault k) \<longrightarrow> insert_rows fault now d df = (d, Inl OperationalError))"
proof (intro conjI impI)
  assume "\<forall>k < length df. \<not> fault k"
  then have nf: "\<forall>j < length df. \<not> fault (0 + j)" by simp
  from insert_loop_shape [OF nf, of now d 0 0] obtain new i' s' where
    h: "insert_loop fault now 0 df d 0 0 =
          Inr (d\<lparr>ledger := ledger d @ new, id_seq := id_seq d + length new\<rparr>, i', s')"
       "i' = length new" "i' + s' = length df"
       "length (filter (\<lambda>r. violates d (insert_params now r)) df) \<le> s'"
       "\<forall>p \<in> set new. not_null_ok p \<and> external_id p \<notin> set (map external_id (ledger d)) \<and>
          (\<exists>r \<in> set df. p\<lparr>row_id := 0\<rparr> = insert_params now r)"
       "distinct (map external_id new)"
       "\<forall>r \<in> set df. violates (d\<lparr>ledger := ledger d @ new, id_seq := id_seq d + length new\<rparr>) (insert_params now r)"
    by auto
  from insert_loop_accepted [OF nf, of now d 0 0] obtain new2 i2 s2 where
    g: "insert_loop fault now 0 df d 0 0 =
          Inr (d\<lparr>ledger := ledger d @ new2, id_seq := id_seq d + length new2\<rparr>, i2, s2)"
       "map (\<lambda>p. p\<lparr>row_id := 0\<rparr>) new2 =
          accepted (set (map external_id (ledger d))) (map (insert_params now) df)"
       "map row_id new2 = [Suc (id_seq d) ..< Suc (id_seq d + length new2)]"
    by blast
  from h(1) g(1) have "ledger (d\<lparr>ledger := ledger d @ new, id_seq := id_seq d + length new\<rparr>) =
      ledger (d\<lparr>ledger := ledger d @ new2, id_seq := id_seq d + length new2\<rparr>)"
    by simp
  then have eq: "new2 = new" by simp
  have st: "\<forall>r \<in> set df. not_null_ok (insert_params now r) \<longrightarrow>
           external_id (insert_params now r) \<in> set (map external_id (ledger d @ new))"
    using h(7) by (simp add: violates_def)
  have res: "insert_rows fault now d df =
      (d\<lparr>ledger := ledger d @ new, id_seq := id_seq d + length new\<rparr>, Inr (i', s'))"
    using h(1) by (simp add: insert_rows_def)
  show "\<exists>new inserted skipped.
        insert_rows fault now d df =
          (d\<lparr>ledger := ledger d @ new, id_seq := id_seq d + length new\<rparr>, Inr (inserted, skipped)) \<and>
        inserted = length new \<and> inserted + skipped = length df \<and>
        map (\<lambda>p. p\<lparr>row_id := 0\<rparr>) new =
          accepted (set (map external_id (ledger d))) (map (insert_params now) df) \<and>
        map row_id new = [Suc (id_seq d) ..< Suc (id_seq d + length new)] \<and>
        (\<forall>p \<in> set new. not_null_ok p \<and> external_id p \<notin> set (map external_id (ledger d)) \<and>
           (\<exists>r \<in> set df. p\<lparr>row_id := 0\<rparr> = insert_params now r)) \<and>
        distinct (map external_id new) \<and>
        (\<forall>r \<in> set df. not_null_ok (insert_params now r) \<longrightarrow>
           external_id (insert_params now r) \<in> set (map external_id (ledger d @ new))) \<and>
        length (filter (\<lambda>r. violates d (insert_params now r)) df) \<le> skipped"
    apply (rule exI [of _ new], rule exI [of _ i'], rule exI [of _ s'])
    using res h(2-6) st g(2,3) [unfolded eq] by blast
next
  assume "\<exists>k < length df. fault k"
  then have "\<exists>j < length df. fault (0 + j)" by simp
  from insert_loop_fault [OF this] show "insert_rows fault now d df = (d, Inl OperationalError)"
    by (simp add: insert_rows_def)
qed

text \<open>
  Witness for C8: the same identifier twice (one row inserted, one skipped), a row without an
  amount before a row that violates nothing (the first skipped, the second inserted), and a
  storage failure at the second statement.
\<close>

theorem insert_rows_counts_witness:
  "no_fault 0 = False \<and> no_fault 1 = False \<and>
   accepted (set (map external_id (ledger empty_db))) (map (insert_params ''t0'') [coffee_1, coffee_1]) =
     [insert_params ''t0'' coffee_1] \<and>
   insert_rows no_fault ''t0'' empty_db [coffee_1, coffee_1] =
     (\<lparr>ledger = [(insert_params ''t0'' coffee_1)\<lparr>row_id := 1\<rparr>], id_seq = 1, locked_months = []\<rparr>,
      Inr (1, 1)) \<and>
   insert_rows no_fault ''t0'' empty_db [no_amount, coffee_1] =
     (\<lparr>ledger = [(insert_params ''t0'' coffee_1)\<lparr>row_id := 1\<rparr>], id_seq = 1, locked_months = []\<rparr>,
      Inr (1, 1)) \<and>
   fault_second 1 \<and>
   insert_rows fault_second ''t0'' empty_db [coffee_1, coffee_1] = (empty_db, Inl OperationalError)"
proof -
  have a: "\<exists>k < length [coffee_1, coffee_1]. fault_second k"
    by (auto simp: fault_second_def)
  have b: "insert_rows fault_second ''t0'' empty_db [coffee_1, coffee_1] = (empty_db, Inl OperationalError)"
    using insert_rows_counts [of "[coffee_1, coffee_1]" fault_second "''t0''" empty_db] a by blast
  have n: "\<forall>k < length [coffee_1, coffee_1]. \<not> no_fault k"
    by (simp add: no_fault_def)
  have acc: "accepted (set (map external_id (ledger empty_db))) (map (insert_params ''t0'') [coffee_1, coffee_1]) =
      [insert_params ''t0'' coffee_1]"
    by (simp add: not_null_ok_def insert_params_def bind_text_def bind_real_def coffee_1_def
        coffee_def empty_db_def)
  from insert_rows_counts [of "[coffee_1, coffee_1]" no_fault "''t0''" empty_db] n
  obtain new inserted skipped where
    h: "insert_rows no_fault ''t0'' empty_db [coffee_1, coffee_1] =
          (empty_db\<lparr>ledger := ledger empty_db @ new, id_seq := id_seq empty_db + length new\<rparr>,
           Inr (inserted, skipped))"
       "inserted = length new" "inserted + skipped = length [coffee_1, coffee_1]"
       "map (\<lambda>p. p\<lparr>row_id := 0\<rparr>) new =
          accepted (set (map external_id (ledger empty_db))) (map (insert_params ''t0'') [coffee_1, coffee_1])"
       "map row_id new = [Suc (id_seq empty_db) ..< Suc (id_seq empty_db + length new)]"
    by blast
  from h(4) obtain p where new: "new = [p]" "p\<lparr>row_id := 0\<rparr> = insert_params ''t0'' coffee_1"
    unfolding acc by auto
  from h(5) have "row_id p = 1"
    by (simp add: new(1) empty_db_def)
  with new(2) have p: "p = (insert_params ''t0'' coffee_1)\<lparr>row_id := 1\<rparr>"
    by (cases p) (simp add: insert_params_def)
  have c: "insert_rows no_fault ''t0'' empty_db [coffee_1, coffee_1] =
      (\<lparr>ledger = [(insert_params ''t0'' coffee_1)\<lparr>row_id := 1\<rparr>], id_seq = 1, locked_months = []\<rparr>,
       Inr (1, 1))"
    using h(1,2,3) by (simp add: new(1) p empty_db_def)
  have e: "insert_rows no_fault ''t0'' empty_db [no_amount, coffee_1] =
      (\<lparr>ledger = [(insert_params ''t0'' coffee_1)\<lparr>row_id := 1\<rparr>], id_seq = 1, locked_months = []\<rparr>,
       Inr (1, 1))"
    by (simp add: insert_rows_def insert_loop_step violates_def not_null_ok_def insert_params_def
        bind_text_def bind_real_def no_amount_def coffee_1_def coffee_def empty_db_def no_fault_def)
  show ?thesis
    using acc b c e by (simp add: no_fault_def fault_second_def)
qed

text \<open>
  Claim C8, as stated, fails in its last part: the handler catches every \<^verbatim>\<open>IntegrityError\<close>,
  not only the one of the unique index. A row without an amount (NaN, bound as NULL) into
  the empty ledger violates NOT NULL, not uniqueness, and is counted as skipped: no error
  propagates.
\<close>

theorem not_null_violation_skipped_counterexample:
  "df_external_id no_amount = Some ''0000000000000000-1'' \<and>
   ledger empty_db = [] \<and>
   insert_rows no_fault ''t0'' empty_db [no_amount] = (empty_db, Inr (0, 1))"
  by (simp add: insert_rows_def insert_loop_step violates_def not_null_ok_def insert_params_def
      bind_text_def bind_real_def no_amount_def coffee_def empty_db_def no_fault_def)


section \<open>Properties of the parser and of the mapping\<close>

lemma replace_char_Nil: "replace [c] [] [] = []"
  by (subst replace.simps) simp

lemma replace_char_Cons:
  "replace [c] [] (x # xs) = (if x = c then replace [c] [] xs else x # replace [c] [] xs)"
  by (subst replace.simps) (simp add: take_Suc_conv_app_nth)

lemma replace_char_filter: "replace [c] [] s = filter (\<lambda>x. x \<noteq> c) s"
  by (induction s) (simp_all add: replace_char_Nil replace_char_Cons)

lemma clean_amount_eq:
  "clean_amount t =
     (let s = strip (amount_chars t)
      in if startswith s ''('' \<and> endswith s '')'' then ''-'' @ butlast (tl s) else s)"
proof -
  have "replace '','' [] (replace ''$'' [] t) = amount_chars t"
    by (simp add: replace_char_filter amount_chars_def conj_commute)
  then show ?thesis
    by (simp add: clean_amount_def)
qed

lemma amount_chars_idem: "amount_chars (amount_chars t) = amount_chars t"
  by (simp add: amount_chars_def)

lemma clean_amount_paren:
  assumes "strip (amount_chars t) = ''('' @ u @ '')''"
  shows "clean_amount t = ''-'' @ u"
  using assms by (simp add: clean_amount_eq startswith_def endswith_def butlast_append)

lemma clean_amount_plain:
  assumes "\<not> (startswith (strip (amount_chars t)) ''('' \<and> endswith (strip (amount_chars t)) '')'')"
  shows "clean_amount t = strip (amount_chars t)"
  using assms by (auto simp: clean_amount_eq Let_def)

lemma candidate_no_amount:
  "parse_amount ext (c_amt r) = None \<Longrightarrow> candidate ext acct route r = None"
  by (simp add: candidate_def Let_def)

lemma map_filter_drop:
  "f x = None \<Longrightarrow> List.map_filter f (xs @ x # ys) = List.map_filter f (xs @ ys)"
  by (simp add: List.map_filter_def)

lemma dropWhile_snoc: "\<not> P x \<Longrightarrow> dropWhile P (ys @ [x]) = dropWhile P ys @ [x]"
  by (induction ys) simp_all

lemma strip_Cons: "\<not> is_space c \<Longrightarrow> strip (c # r) = c # rev (dropWhile is_space (rev r))"
  by (simp add: strip_def dropWhile_snoc)

lemma unsigned_text_hd:
  assumes "unsigned_text (c # r)"
  shows "\<not> is_space c" "c \<noteq> CHR ''-''" "c \<noteq> CHR ''+''" "c \<noteq> CHR ''(''"
  using assms by (auto simp: unsigned_text_def is_digit_def is_space_def)

lemma strip_minus:
  assumes "unsigned_text u"
  shows "strip (''-'' @ u) = ''-'' @ strip u" "\<exists>c r. strip u = c # r \<and> c \<noteq> CHR ''-'' \<and> c \<noteq> CHR ''+''"
proof -
  from assms obtain c r where u: "u = c # r"
    by (cases u) (simp_all add: unsigned_text_def)
  note h = unsigned_text_hd [OF assms [unfolded u]]
  have m: "\<not> is_space CHR ''-''" by (simp add: is_space_def)
  have s: "strip u = c # rev (dropWhile is_space (rev r))"
    unfolding u using h(1) by (rule strip_Cons)
  have "strip (CHR ''-'' # c # r) = CHR ''-'' # rev (dropWhile is_space (rev (c # r)))"
    using m by (rule strip_Cons)
  also have "rev (dropWhile is_space (rev (c # r))) = c # rev (dropWhile is_space (rev r))"
    using h(1) by (simp add: dropWhile_snoc)
  finally show "strip (''-'' @ u) = ''-'' @ strip u"
    by (simp add: s [unfolded u] u)
  show "\<exists>c r. strip u = c # r \<and> c \<noteq> CHR ''-'' \<and> c \<noteq> CHR ''+''"
    using s h by blast
qed

lemma plain_decimal_negates:
  assumes "unsigned_text u"
  shows "plain_decimal (''-'' @ u) = map_option uminus (plain_decimal u)"
proof -
  from strip_minus(2) [OF assms] obtain c r where
    s: "strip u = c # r" "c \<noteq> CHR ''-''" "c \<noteq> CHR ''+''" by blast
  show ?thesis
    unfolding plain_decimal_def strip_minus(1) [OF assms] s(1) using s(2,3) by simp
qed

lemma float_negates_example: "float_negates example_ext"
  using plain_decimal_negates by (simp add: float_negates_def example_ext_def)

lemma amount_chars_paren: "amount_chars (''('' @ v @ '')'') = ''('' @ amount_chars v @ '')''"
  by (simp add: amount_chars_def)

lemma strip_paren: "strip (''('' @ w @ '')'') = ''('' @ w @ '')''"
proof -
  have a: "\<not> is_space CHR ''(''" "\<not> is_space CHR '')''" by (simp_all add: is_space_def)
  have "strip (CHR ''('' # w @ '')'') = CHR ''('' # rev (dropWhile is_space (rev (w @ '')'')))"
    using a(1) by (rule strip_Cons)
  also have "rev (dropWhile is_space (rev (w @ '')''))) = w @ '')''"
    using a(2) by simp
  finally show ?thesis by simp
qed

lemma parse_amount_paren:
  assumes "float_negates ext" "strip (amount_chars t) = ''('' @ u @ '')''" "unsigned_text u"
  shows "parse_amount ext (Str t) = map_option uminus (py_float ext u)"
  using assms by (simp add: parse_amount_def clean_amount_paren float_negates_def)

lemma parse_amount_unsigned:
  assumes "unsigned_text (amount_chars v)" "strip (amount_chars v) = amount_chars v"
  shows "parse_amount ext (Str v) = py_float ext (amount_chars v)"
proof -
  from assms(1) obtain c r where u: "amount_chars v = c # r"
    by (cases "amount_chars v") (simp_all add: unsigned_text_def)
  from unsigned_text_hd(4) [OF assms(1) [unfolded u]] have "c \<noteq> CHR ''(''" .
  moreover have st: "strip (amount_chars v) = c # r"
    using assms(2) u by simp
  ultimately have "\<not> startswith (strip (amount_chars v)) ''(''"
    unfolding st by (simp add: startswith_def)
  then have "clean_amount v = strip (amount_chars v)"
    by (intro clean_amount_plain) simp
  then show ?thesis by (simp add: parse_amount_def assms(2))
qed

lemma parse_amount_negation:
  assumes "float_negates ext" "unsigned_text (amount_chars v)" "strip (amount_chars v) = amount_chars v"
  shows "parse_amount ext (Str (''('' @ v @ '')'')) = map_option uminus (parse_amount ext (Str v))"
proof -
  have "strip (amount_chars (''('' @ v @ '')'')) = ''('' @ amount_chars v @ '')''"
    unfolding amount_chars_paren by (rule strip_paren)
  from parse_amount_paren [OF assms(1) this assms(2)] parse_amount_unsigned [OF assms(2,3)]
  show ?thesis by simp
qed

text \<open>
  Claim C9, amended. \<^verbatim>\<open>parse_amount\<close> returns no amount for a missing cell and the number of a
  numeric cell; for a text it returns what \<^verbatim>\<open>float\<close> returns on the cleaned text, hence no
  amount when \<^verbatim>\<open>float\<close> cannot parse it. The cleaned text does not depend on the currency
  symbols and thousands separators of the input; when the rest, stripped, is a parenthesized
  text, the cleaned text is a minus sign and the text between the parentheses, otherwise it is
  the rest. Where \<^verbatim>\<open>float\<close> reads a minus sign before an unsigned text as a negation, the amount
  of a parenthesized text whose inside starts with a digit or a decimal point is the negation
  of what \<^verbatim>\<open>float\<close> returns for the inside, and the amount of \<open>(v)\<close> is the negation of the
  amount of \<open>v\<close> when \<open>v\<close>, without its currency symbols and separators, starts so and has no
  whitespace around it. A row for which \<^verbatim>\<open>parse_amount\<close> returns no amount yields no
  candidate record, and the import of the batch is the import of the batch without this row.
\<close>

theorem parse_amount_spec:
  "parse_amount ext NA = None \<and>
   parse_amount ext (Num x) = Some x \<and>
   parse_amount ext (Str t) = py_float ext (clean_amount t) \<and>
   clean_amount (amount_chars t) = clean_amount t \<and>
   (\<forall>u. strip (amount_chars t) = ''('' @ u @ '')'' \<longrightarrow> clean_amount t = ''-'' @ u) \<and>
   (\<not> (startswith (strip (amount_chars t)) ''('' \<and> endswith (strip (amount_chars t)) '')'') \<longrightarrow>
      clean_amount t = strip (amount_chars t)) \<and>
   (float_negates ext \<longrightarrow>
      (\<forall>u. strip (amount_chars t) = ''('' @ u @ '')'' \<and> unsigned_text u \<longrightarrow>
         parse_amount ext (Str t) = map_option uminus (py_float ext u)) \<and>
      (unsigned_text (amount_chars v) \<and> strip (amount_chars v) = amount_chars v \<longrightarrow>
         parse_amount ext (Str (''('' @ v @ '')'')) = map_option uminus (parse_amount ext (Str v)))) \<and>
   (parse_amount ext (c_amt r) = None \<longrightarrow>
      candidate ext acct route r = None \<and>
      import_chase_csv ext acct route (rows @ r # rows') = import_chase_csv ext acct route (rows @ rows'))"
proof -
  have a: "clean_amount (amount_chars t) = clean_amount t"
    by (simp add: clean_amount_eq amount_chars_idem)
  have b: "import_chase_csv ext acct route (rows @ r # rows') = import_chase_csv ext acct route (rows @ rows')"
    if "parse_amount ext (c_amt r) = None"
    using candidate_no_amount [OF that, of acct route]
    by (simp add: import_chase_csv_def map_filter_drop)
  have c: "parse_amount ext (Str t) = map_option uminus (py_float ext u)"
    if "float_negates ext" "strip (amount_chars t) = ''('' @ u @ '')''" "unsigned_text u" for u
    using that by (rule parse_amount_paren)
  have d: "parse_amount ext (Str (''('' @ v @ '')'')) = map_option uminus (parse_amount ext (Str v))"
    if "float_negates ext" "unsigned_text (amount_chars v)" "strip (amount_chars v) = amount_chars v"
    using that by (rule parse_amount_negation)
  have e: "parse_amount ext NA = None \<and> parse_amount ext (Num x) = Some x \<and>
      parse_amount ext (Str t) = py_float ext (clean_amount t)"
    by (simp add: parse_amount_def)
  from a b c d e clean_amount_paren [of t] clean_amount_plain [of t]
    candidate_no_amount [of ext r acct route]
  show ?thesis by blast
qed

text \<open>
  Witness for C9, with a stand-in for \<^verbatim>\<open>float\<close> on plain decimal literals, which negates as
  \<^verbatim>\<open>float\<close> does: ($1,234.50) parses to -1234.5, (12.34) to -12.34, $1,234.50 to 1234.5, and the
  row with the amount oops is dropped from a batch of three.
\<close>

theorem parse_amount_spec_witness:
  "float_negates example_ext \<and>
   strip (amount_chars ''($1,234.50)'') = ''('' @ ''1234.50'' @ '')'' \<and> unsigned_text ''1234.50'' \<and>
   unsigned_text (amount_chars ''12.34'') \<and> strip (amount_chars ''12.34'') = amount_chars ''12.34'' \<and>
   clean_amount ''($1,234.50)'' = ''-1234.50'' \<and>
   py_float example_ext ''1234.50'' = Some (12345 / 10) \<and>
   parse_amount example_ext (Str ''($1,234.50)'') = Some (- 12345 / 10) \<and>
   parse_amount example_ext (Str ''12.34'') = Some (1234 / 100) \<and>
   parse_amount example_ext (Str ''(12.34)'') = Some (- 1234 / 100) \<and>
   parse_amount example_ext (Str ''$1,234.50'') = Some (12345 / 10) \<and>
   parse_amount example_ext (c_amt (csv_line ''01/06/2024'' ''TEA'' ''oops'')) = None \<and>
   map df_description
     (import_chase_csv example_ext ''Chase'' True
       ([csv_line ''01/05/2024'' ''COFFEE'' ''-4.50''] @ csv_line ''01/06/2024'' ''TEA'' ''oops'' #
        [csv_line ''01/07/2024'' ''COFFEE'' ''(3.00)''])) =
   [Some ''COFFEE'', Some ''COFFEE'']"
proof -
  have p: "strip (amount_chars ''($1,234.50)'') = ''('' @ ''1234.50'' @ '')''"
    by code_simp
  have q: "unsigned_text ''1234.50''" "unsigned_text (amount_chars ''12.34'')"
    "strip (amount_chars ''12.34'') = amount_chars ''12.34''"
    by code_simp+
  have n: "parse_amount example_ext (c_amt (csv_line ''01/06/2024'' ''TEA'' ''oops'')) = None"
    by code_simp
  have e: "map df_description
     (import_chase_csv example_ext ''Chase'' True
       ([csv_line ''01/05/2024'' ''COFFEE'' ''-4.50''] @ [csv_line ''01/07/2024'' ''COFFEE'' ''(3.00)''])) =
   [Some ''COFFEE'', Some ''COFFEE'']"
    by code_simp
  have v: "py_float example_ext ''1234.50'' = Some (12345 / 10)"
    "parse_amount example_ext (Str ''12.34'') = Some (1234 / 100)"
    "parse_amount example_ext (Str ''$1,234.50'') = Some (12345 / 10)"
    by code_simp+
  from parse_amount_spec [where ext = example_ext and t = "''($1,234.50)''" and v = "''12.34''"
      and r = "csv_line ''01/06/2024'' ''TEA'' ''oops''" and acct = "''Chase''" and route = True
      and rows = "[csv_line ''01/05/2024'' ''COFFEE'' ''-4.50'']"
      and rows' = "[csv_line ''01/07/2024'' ''COFFEE'' ''(3.00)'']"] p q n float_negates_example
  have "clean_amount ''($1,234.50)'' = ''-'' @ ''1234.50''"
    and "parse_amount example_ext (Str ''($1,234.50)'') = map_option uminus (py_float example_ext ''1234.50'')"
    and "parse_amount example_ext (Str (''('' @ ''12.34'' @ '')'')) =
       map_option uminus (parse_amount example_ext (Str ''12.34''))"
    and "import_chase_csv example_ext ''Chase'' True
       ([csv_line ''01/05/2024'' ''COFFEE'' ''-4.50''] @ csv_line ''01/06/2024'' ''TEA'' ''oops'' #
        [csv_line ''01/07/2024'' ''COFFEE'' ''(3.00)'']) =
       import_chase_csv example_ext ''Chase'' True
       ([csv_line ''01/05/2024'' ''COFFEE'' ''-4.50''] @ [csv_line ''01/07/2024'' ''COFFEE'' ''(3.00)''])"
    by blast+
  with p q n e v float_negates_example show ?thesis by simp
qed

text \<open>
  Claim C9, as stated, fails for parenthesized texts whose inside does not start as an
  unsigned number: the inside of (-5) has the amount -5 and the inside of ( 12.34 ) the amount
  12.34, but \<^verbatim>\<open>parse_amount\<close> hands \<^verbatim>\<open>float\<close> the texts --5 and - 12.34, which \<^verbatim>\<open>float\<close> rejects (the
  stand-in agrees with it on these four texts), so both get no amount instead of 5 and -12.34.
\<close>

theorem parenthesized_not_negated_counterexample:
  "parse_amount example_ext (Str ''-5'') = Some (- 5) \<and>
   clean_amount ''(-5)'' = ''--5'' \<and>
   parse_amount example_ext (Str ''(-5)'') = None \<and>
   parse_amount example_ext (Str '' 12.34 '') = Some (1234 / 100) \<and>
   clean_amount ''( 12.34 )'' = ''- 12.34 '' \<and>
   parse_amount example_ext (Str ''( 12.34 )'') = None"
  by code_simp

lemma candidate_description:
  "candidate ext acct route c = Some r \<Longrightarrow> df_description r = Some (strip (cell_str ext (c_desc c)))"
  by (auto simp: candidate_def Let_def split: if_splits)

lemma assign_external_ids_description:
  "map df_description (assign_external_ids sha df) = map df_description df"
  by (rule nth_equalityI)
    (simp_all add: assign_external_ids_length assign_external_ids_nth)

lemma import_descriptions:
  "r \<in> set (import_chase_csv ext acct route rows) \<Longrightarrow>
   \<exists>c \<in> set rows. df_description r = Some (strip (cell_str ext (c_desc c)))"
proof -
  assume "r \<in> set (import_chase_csv ext acct route rows)"
  then have "df_description r \<in> set (map df_description (import_chase_csv ext acct route rows))"
    by simp
  then have "df_description r \<in> set (map df_description (List.map_filter (candidate ext acct route) rows))"
    by (simp only: import_chase_csv_def assign_external_ids_description)
  then obtain r' where "r' \<in> set (List.map_filter (candidate ext acct route) rows)"
    "df_description r = df_description r'"
    by auto
  then obtain c where "c \<in> set rows" "candidate ext acct route c = Some r'"
    by (auto simp: List.map_filter_def)
  with \<open>df_description r = df_description r'\<close> show ?thesis
    by (auto dest: candidate_description)
qed

text \<open>
  Claim C3, as stated, fails: the import looks the description up as it is, without
  \<^verbatim>\<open>normalize_description\<close>. Two descriptions with the same normalized form get different
  suggestions, and the stored mapping is not found for the one that differs by case and a run
  of digits.
\<close>

theorem normalized_lookup_counterexample:
  "normalize_description ''Starbucks 123'' = normalize_description ''STARBUCKS'' \<and>
   example_prefs ''STARBUCKS'' = Some ''Coffee'' \<and>
   map df_category (apply_mapping example_prefs [starbucks ''Starbucks 123'', starbucks ''STARBUCKS'']) =
     [None, Some ''Coffee'']"
proof -
  have "normalize_description ''Starbucks 123'' = ''STARBUCKS''"
    "normalize_description ''STARBUCKS'' = ''STARBUCKS''"
    by code_simp+
  then show ?thesis
    by (simp add: apply_mapping_def example_prefs_def starbucks_def coffee_def)
qed

text \<open>
  Claim C3, amended. The category the import suggests for an expense row is the exact-match
  lookup of its description in the Preference Map, with no normalization (so equal
  descriptions get equal suggestions); rows of another kind keep their category; and the
  description of an imported row is the text of the description cell with the whitespace
  around it stripped.
\<close>

theorem mapping_is_exact_lookup:
  "length (apply_mapping prefs df) = length df \<and>
   (\<forall>i < length df.
      apply_mapping prefs df ! i =
        (if df_kind (df ! i) = Some ''expense''
         then (df ! i)\<lparr>df_category := Option.bind (df_description (df ! i)) prefs\<rparr>
         else df ! i)) \<and>
   (\<forall>r \<in> set (import_chase_csv ext acct route rows).
      \<exists>c \<in> set rows. df_description r = Some (strip (cell_str ext (c_desc c))))"
  using import_descriptions [of _ ext acct route rows]
  by (simp add: apply_mapping_def)

text \<open>
  Witness for C3: the row whose description is the stored key gets its category, the row
  whose description differs from it gets none.
\<close>

theorem mapping_is_exact_lookup_witness:
  "(1::nat) < length [starbucks ''Starbucks 123'', starbucks ''STARBUCKS''] \<and>
   df_kind ([starbucks ''Starbucks 123'', starbucks ''STARBUCKS''] ! 1) = Some ''expense'' \<and>
   df_category (apply_mapping example_prefs [starbucks ''Starbucks 123'', starbucks ''STARBUCKS''] ! 1)
     = example_prefs ''STARBUCKS'' \<and>
   df_category (apply_mapping example_prefs [starbucks ''Starbucks 123'', starbucks ''STARBUCKS''] ! 0)
     = example_prefs ''Starbucks 123'' \<and>
   example_prefs ''Starbucks 123'' = None"
proof -
  have k: "df_kind ([starbucks ''Starbucks 123'', starbucks ''STARBUCKS''] ! 1) = Some ''expense''"
    "df_kind ([starbucks ''Starbucks 123'', starbucks ''STARBUCKS''] ! 0) = Some ''expense''"
    "df_description ([starbucks ''Starbucks 123'', starbucks ''STARBUCKS''] ! 1) = Some ''STARBUCKS''"
    "df_description ([starbucks ''Starbucks 123'', starbucks ''STARBUCKS''] ! 0) = Some ''Starbucks 123''"
    by (simp_all add: starbucks_def coffee_def)
  from mapping_is_exact_lookup [of example_prefs "[starbucks ''Starbucks 123'', starbucks ''STARBUCKS'']"]
  have "\<forall>i < length [starbucks ''Starbucks 123'', starbucks ''STARBUCKS''].
      apply_mapping example_prefs [starbucks ''Starbucks 123'', starbucks ''STARBUCKS''] ! i =
        (if df_kind ([starbucks ''Starbucks 123'', starbucks ''STARBUCKS''] ! i) = Some ''expense''
         then ([starbucks ''Starbucks 123'', starbucks ''STARBUCKS''] ! i)\<lparr>df_category :=
           Option.bind (df_description ([starbucks ''Starbucks 123'', starbucks ''STARBUCKS''] ! i)) example_prefs\<rparr>
         else [starbucks ''Starbucks 123'', starbucks ''STARBUCKS''] ! i)"
    by blast
  then have "apply_mapping example_prefs [starbucks ''Starbucks 123'', starbucks ''STARBUCKS''] ! 1 =
       ([starbucks ''Starbucks 123'', starbucks ''STARBUCKS''] ! 1)\<lparr>df_category := example_prefs ''STARBUCKS''\<rparr>"
    and "apply_mapping example_prefs [starbucks ''Starbucks 123'', starbucks ''STARBUCKS''] ! 0 =
       ([starbucks ''Starbucks 123'', starbucks ''STARBUCKS''] ! 0)\<lparr>df_category := example_prefs ''Starbucks 123''\<rparr>"
    using k by (simp_all del: nth_Cons_0 nth_Cons_Suc One_nat_def)
  then show ?thesis
    using k by (simp add: example_prefs_def)
qed

section \<open>Properties of the locks\<close>

lemma update_where_id_length [simp]: "length (update_where_id j f rows) = length rows"
  by (simp add: update_where_id_def)

lemma update_where_id_nth:
  "i < length rows \<Longrightarrow>
   update_where_id j f rows ! i = (if row_id (rows ! i) = j then f (rows ! i) else rows ! i)"
  by (simp add: update_where_id_def)

lemma update_where_id_ids:
  "(\<And>r. row_id (f r) = row_id r) \<Longrightarrow> map row_id (update_where_id j f rows) = map row_id rows"
  by (simp add: update_where_id_def)

lemma set_col_row_id [simp]: "row_id (set_col k v r) = row_id r"
  by (simp add: set_col_def)

lemma foldl_set_col_row_id [simp]:
  "row_id (foldl (\<lambda>r kv. set_col (fst kv) (snd kv) r) r kvs) = row_id r"
  by (induction kvs arbitrary: r) simp_all

text \<open>A row of the snapshot that is locked differs in id from every row that is not.\<close>

lemma locked_id_differs:
  assumes "distinct (map row_id rows)" "i < length rows" "r \<in> set rows"
    "cell_month (txn_date (rows ! i)) \<in> locked" "cell_month (txn_date r) \<notin> locked"
  shows "row_id (rows ! i) \<noteq> row_id r"
proof
  assume e: "row_id (rows ! i) = row_id r"
  from assms(3) obtain j where j: "j < length rows" "rows ! j = r"
    by (auto simp: in_set_conv_nth)
  with e assms(1,2) have "i = j"
    by (metis distinct_conv_nth length_map nth_map)
  with j assms(4,5) show False by simp
qed

lemma keeps_refl: "keeps locked rows0 rows0"
  by (simp add: keeps_def)

lemma keeps_update:
  assumes k: "keeps locked rows0 rows" and d: "distinct (map row_id rows0)"
    and r: "r \<in> set rows0" "cell_month (txn_date r) \<notin> locked"
    and f: "\<And>x. row_id (f x) = row_id x"
  shows "keeps locked rows0 (update_where_id (row_id r) f rows)"
proof -
  from k have ids: "map row_id rows = map row_id rows0" by (simp add: keeps_def)
  then have len: "length rows = length rows0" by (metis length_map)
  have "update_where_id (row_id r) f rows ! i = rows0 ! i"
    if i: "i < length rows0" and l: "cell_month (txn_date (rows0 ! i)) \<in> locked" for i
  proof -
    from locked_id_differs [OF d i r(1) l r(2)] have "row_id (rows0 ! i) \<noteq> row_id r" .
    moreover from k i l have e: "rows ! i = rows0 ! i" by (simp add: keeps_def)
    ultimately show ?thesis
      using i len by (simp add: update_where_id_nth)
  qed
  moreover have "map row_id (update_where_id (row_id r) f rows) = map row_id rows0"
    using ids f by (simp add: update_where_id_ids)
  ultimately show ?thesis
    by (simp add: keeps_def)
qed

lemma categorize_loop_keeps:
  assumes "distinct (map row_id rows0)" "set rs \<subseteq> set rows0" "keeps locked rows0 (ledger d)"
    "categorize_loop fault cat locked k rs d = Inr d'"
  shows "keeps locked rows0 (ledger d') \<and> locked_months d' = locked_months d \<and> id_seq d' = id_seq d"
  using assms(2-)
proof (induction rs arbitrary: k d)
  case Nil
  then show ?case by simp
next
  case (Cons r rs)
  show ?case
  proof (cases "cell_month (txn_date r) \<in> locked")
    case True
    with Cons.prems have "categorize_loop fault cat locked (Suc k) rs d = Inr d'" by simp
    with Cons.IH [of d "Suc k"] Cons.prems show ?thesis by simp
  next
    case False
    let ?d1 = "d\<lparr>ledger := update_where_id (row_id r) (\<lambda>x. x\<lparr>category := SText cat\<rparr>) (ledger d)\<rparr>"
    from False Cons.prems have nf: "\<not> fault k"
      by (auto split: if_splits)
    with False Cons.prems have c: "categorize_loop fault cat locked (Suc k) rs ?d1 = Inr d'" by simp
    from Cons.prems have "r \<in> set rows0" by simp
    from keeps_update [OF Cons.prems(2) assms(1) this False, of "\<lambda>x. x\<lparr>category := SText cat\<rparr>"]
    have "keeps locked rows0 (ledger ?d1)" by simp
    with Cons.IH [of ?d1 "Suc k"] Cons.prems c show ?thesis by simp
  qed
qed


lemma update_txn_by_id_cases:
  "update_txn_by_id failing j updates d = Inr d' \<Longrightarrow>
   d' = d \<or> (\<exists>f. (\<forall>x. row_id (f x) = row_id x) \<and> d' = d\<lparr>ledger := update_where_id j f (ledger d)\<rparr>)"
  unfolding update_txn_by_id_def Let_def
  by (auto split: if_splits intro!: exI [of _ "\<lambda>r. foldl (\<lambda>r kv. set_col (fst kv) (snd kv) r) r
        (filter (\<lambda>kv. fst kv \<in> set allowed) updates)"])

lemma save_loop_keeps:
  assumes "distinct (map row_id rows0)" "well_formed locked rows0 ts" "keeps locked rows0 (ledger d)"
  shows "keeps locked rows0 (ledger (fst (save_loop fault pystr k ts d n))) \<and>
     locked_months (fst (save_loop fault pystr k ts d n)) = locked_months d \<and>
     id_seq (fst (save_loop fault pystr k ts d n)) = id_seq d"
  using assms(2-)
proof (induction ts arbitrary: k d n)
  case Nil
  then show ?case by simp
next
  case (Cons t ts)
  obtain orig new flag where t: "t = (orig, new, flag)" by (cases t)
  from Cons.prems t have w: "well_formed locked rows0 ts" "orig \<in> set rows0" "row_id new = row_id orig"
    "flag = (cell_month (txn_date orig) \<in> locked)"
    by (simp_all add: well_formed_def)
  show ?case
  proof (cases "flag \<or> row_diff pystr orig new = []")
    case True
    then have "save_loop fault pystr k (t # ts) d n = save_loop fault pystr (Suc k) ts d n"
      by (auto simp: t)
    with Cons.IH [OF w(1) Cons.prems(2)] show ?thesis by simp
  next
    case False
    show ?thesis
    proof (cases "update_txn_by_id (fault k) (row_id new) (row_diff pystr orig new) d")
      case (Inl e)
      with False have "save_loop fault pystr k (t # ts) d n = (d, Inl e)"
        by (simp add: t)
      with Cons.prems show ?thesis by simp
    next
      case (Inr d1)
      with False have s: "save_loop fault pystr k (t # ts) d n = save_loop fault pystr (Suc k) ts d1 (n + 1)"
        by (simp add: t)
      from update_txn_by_id_cases [OF Inr]
      have "keeps locked rows0 (ledger d1) \<and> locked_months d1 = locked_months d \<and> id_seq d1 = id_seq d"
      proof
        assume "d1 = d"
        with Cons.prems show ?thesis by simp
      next
        assume "\<exists>f. (\<forall>x. row_id (f x) = row_id x) \<and> d1 = d\<lparr>ledger := update_where_id (row_id new) f (ledger d)\<rparr>"
        then obtain f where f: "\<And>x. row_id (f x) = row_id x"
          "d1 = d\<lparr>ledger := update_where_id (row_id new) f (ledger d)\<rparr>"
          by blast
        from False w(4) have nl: "cell_month (txn_date orig) \<notin> locked" by simp
        from keeps_update [OF Cons.prems(2) assms(1) w(2) nl, of f] f w(3)
        show ?thesis by simp
      qed
      with Cons.IH [of d1 "Suc k" "n + 1"] w(1) s show ?thesis by simp
    qed
  qed
qed

lemma save_loop_all_locked:
  "\<forall>t \<in> set ts. snd (snd t) \<Longrightarrow> save_loop fault pystr k ts d n = (d, Inr n)"
proof (induction ts arbitrary: k)
  case Nil
  then show ?case by simp
next
  case (Cons t ts)
  obtain orig new flag where t: "t = (orig, new, flag)" by (cases t)
  with Cons show ?case by simp
qed

lemma save_loop_locked_edits:
  assumes "list_all2 (\<lambda>t t'. fst t' = fst t \<and> snd (snd t') = snd (snd t) \<and>
      (\<not> snd (snd t) \<longrightarrow> fst (snd t') = fst (snd t))) ts ts'"
  shows "save_loop fault pystr k ts' d n = save_loop fault pystr k ts d n"
  using assms
proof (induction ts ts' arbitrary: k d n rule: list_all2_induct)
  case Nil
  then show ?case by simp
next
  case (Cons t ts t' ts')
  obtain orig new flag where t: "t = (orig, new, flag)" by (cases t)
  obtain orig' new' flag' where t': "t' = (orig', new', flag')" by (cases t')
  from Cons.hyps(1) t t' have e: "orig' = orig" "flag' = flag" "\<not> flag \<Longrightarrow> new' = new"
    by simp_all
  show ?case
  proof (cases flag)
    case True
    with e Cons.IH show ?thesis by (simp add: t t')
  next
    case False
    with e have "t' = t" by (simp add: t t')
    with Cons.IH show ?thesis
      by (simp add: t split: sum.splits)
  qed
qed

lemma save_loop_count:
  "save_loop fault pystr k ts d n = (d', Inr m) \<Longrightarrow>
   n \<le> m \<and> m - n \<le> length (filter (\<lambda>t. \<not> snd (snd t)) ts)"
proof (induction ts arbitrary: k d n)
  case Nil
  then show ?case by simp
next
  case (Cons t ts)
  obtain orig new flag where t: "t = (orig, new, flag)" by (cases t)
  show ?case
  proof (cases "flag \<or> row_diff pystr orig new = []")
    case True
    with Cons.prems have "save_loop fault pystr (Suc k) ts d n = (d', Inr m)"
      by (auto simp: t split: if_splits)
    from Cons.IH [OF this] show ?thesis by (auto simp: t)
  next
    case False
    with Cons.prems obtain d1 where
      "save_loop fault pystr (Suc k) ts d1 (n + 1) = (d', Inr m)"
      by (auto simp: t split: sum.splits)
    from Cons.IH [OF this] False show ?thesis by (auto simp: t)
  qed
qed


lemma set_fetch_year: "set (fetch_year year d) = {r \<in> set (ledger d). year_is year (txn_date r)}"
  by (auto simp: fetch_year_def)

lemma edit_table_well_formed:
  "well_formed (get_locked_months year d) (ledger d) (edit_table shown user year d)"
  by (auto simp: well_formed_def edit_table_def set_fetch_year)

lemma keepsD:
  "keeps locked rows0 rows \<Longrightarrow>
   length rows = length rows0 \<and>
   (\<forall>i < length rows0. cell_month (txn_date (rows0 ! i)) \<in> locked \<longrightarrow> rows ! i = rows0 ! i)"
  unfolding keeps_def by (metis length_map)

lemma update_category_keeps:
  assumes "distinct (map row_id (ledger d))"
  shows "keeps locked (ledger d) (ledger (fst (update_category_for_description fault desc cat year locked d)))"
proof -
  let ?rows = "filter (\<lambda>r. description r = SText desc \<and> kind r = SText ''expense'' \<and>
                    (category r = SNull \<or> category r = SText []) \<and> year_is year (txn_date r)) (ledger d)"
  show ?thesis
  proof (cases "categorize_loop fault cat locked 0 ?rows d")
    case (Inl e)
    then show ?thesis
      by (simp add: update_category_for_description_def keeps_refl)
  next
    case (Inr d')
    have "set ?rows \<subseteq> set (ledger d)" by auto
    from categorize_loop_keeps [OF assms this keeps_refl Inr] Inr show ?thesis
      by (simp add: update_category_for_description_def)
  qed
qed

lemma save_edits_keeps:
  assumes "distinct (map row_id (ledger d))"
  shows "keeps (get_locked_months year d) (ledger d) (ledger (fst (save_edits fault pystr shown user year d)))"
  unfolding save_edits_def
  using save_loop_keeps [OF assms edit_table_well_formed keeps_refl] by blast

lemma update_category_locks:
  assumes "distinct (map row_id (ledger d))"
  shows "locked_months (fst (update_category_for_description fault desc cat year locked d)) = locked_months d"
proof -
  let ?rows = "filter (\<lambda>r. description r = SText desc \<and> kind r = SText ''expense'' \<and>
                    (category r = SNull \<or> category r = SText []) \<and> year_is year (txn_date r)) (ledger d)"
  show ?thesis
  proof (cases "categorize_loop fault cat locked 0 ?rows d")
    case (Inl e)
    then show ?thesis
      by (simp add: update_category_for_description_def)
  next
    case (Inr d')
    have "set ?rows \<subseteq> set (ledger d)" by auto
    from categorize_loop_keeps [OF assms this keeps_refl Inr] Inr show ?thesis
      by (simp add: update_category_for_description_def)
  qed
qed

lemma save_edits_locks:
  assumes "distinct (map row_id (ledger d))"
  shows "locked_months (fst (save_edits fault pystr shown user year d)) = locked_months d"
  unfolding save_edits_def
  using save_loop_keeps [OF assms edit_table_well_formed keeps_refl] by blast

text \<open>After \<^verbatim>\<open>save_locked_months\<close> the locked months of the year are the saved ones.\<close>

lemma get_locked_after_save: "get_locked_months year (save_locked_months year ms d) = set ms"
  by (auto simp: get_locked_months_def save_locked_months_def)

lemma save_edits_locked_edits:
  assumes "\<forall>r. cell_month (txn_date r) \<notin> get_locked_months year d \<longrightarrow> user' r = user r"
  shows "save_edits fault pystr shown user' year d = save_edits fault pystr shown user year d"
  unfolding save_edits_def
proof (rule save_loop_locked_edits)
  show "list_all2 (\<lambda>t t'. fst t' = fst t \<and> snd (snd t') = snd (snd t) \<and>
      (\<not> snd (snd t) \<longrightarrow> fst (snd t') = fst (snd t)))
      (edit_table shown user year d) (edit_table shown user' year d)"
    unfolding edit_table_def list_all2_map1 list_all2_map2
    using assms by (intro list_all2_all_nthI) simp_all
qed

lemma save_edits_count:
  assumes "save_edits fault pystr shown user year d = (d', Inr n)"
  shows "n \<le> length (filter (\<lambda>r. cell_month (txn_date r) \<notin> get_locked_months year d)
           (filter shown (fetch_year year d)))"
proof -
  from save_loop_count [OF assms [unfolded save_edits_def]]
  have "n \<le> length (filter (\<lambda>t. \<not> snd (snd t)) (edit_table shown user year d))" by simp
  also have "\<dots> = length (filter (\<lambda>r. cell_month (txn_date r) \<notin> get_locked_months year d)
           (filter shown (fetch_year year d)))"
    by (simp add: edit_table_def filter_map comp_def)
  finally show ?thesis .
qed

lemma save_edits_all_locked:
  assumes "\<forall>r \<in> set (ledger d). year_is year (txn_date r) \<and> shown r \<longrightarrow>
      cell_month (txn_date r) \<in> get_locked_months year d"
  shows "save_edits fault pystr shown user year d = (d, Inr 0)"
  unfolding save_edits_def
  by (rule save_loop_all_locked) (use assms in \<open>auto simp: edit_table_def set_fetch_year\<close>)

text \<open>
  The hypothesis of the next theorem holds of every database that \<^verbatim>\<open>insert_rows\<close> builds
  from the empty one: the ids stay distinct.
\<close>

lemma insert_loop_db_ok:
  "db_ok d \<Longrightarrow> insert_loop fault now k rs d i s = Inr (d', i', s') \<Longrightarrow> db_ok d'"
proof (induction rs arbitrary: k d i s)
  case Nil
  then show ?case by simp
next
  case (Cons r rs)
  show ?case
  proof (cases "fault k \<or> violates d (insert_params now r)")
    case True
    with Cons.prems(2) have "insert_loop fault now (Suc k) rs d i (Suc s) = Inr (d', i', s')"
      by (auto simp: insert_loop_step split: if_splits)
    with Cons.IH Cons.prems(1) show ?thesis by blast
  next
    case False
    let ?d1 = "d\<lparr>ledger := ledger d @ [(insert_params now r)\<lparr>row_id := Suc (id_seq d)\<rparr>],
                id_seq := Suc (id_seq d)\<rparr>"
    from False Cons.prems(2) have "insert_loop fault now (Suc k) rs ?d1 (Suc i) s = Inr (d', i', s')"
      by (simp add: insert_loop_step)
    moreover from Cons.prems(1) have "db_ok ?d1"
      by (fastforce simp: db_ok_def)
    ultimately show ?thesis
      using Cons.IH by blast
  qed
qed

lemma insert_rows_db_ok: "db_ok d \<Longrightarrow> db_ok (fst (insert_rows fault now d df))"
  by (auto simp: insert_rows_def split: sum.splits dest: insert_loop_db_ok)

lemma empty_db_ok: "db_ok empty_db"
  by (simp add: db_ok_def empty_db_def)


text \<open>
  Claim C4. For every ledger with distinct ids, every year and every set of locked months:
  \<^verbatim>\<open>update_category_for_description\<close> and the Save edits path over \<^verbatim>\<open>update_txn_by_id\<close> keep the
  number of rows and leave every row whose transaction date is in a locked month as it is,
  whatever the storage does; the result of Save edits does not depend on what the user typed
  into rows of locked months; the reported change count is at most the number of shown rows of
  unlocked months, and it is 0, with the database unchanged, when every shown row of the year
  is in a locked month; neither path changes the table of the locks.
\<close>

theorem locked_months_immutable:
  assumes "distinct (map row_id (ledger d))"
  shows "length (ledger (fst (update_category_for_description fault desc cat year locked d))) = length (ledger d) \<and>
    (\<forall>i < length (ledger d). cell_month (txn_date (ledger d ! i)) \<in> locked \<longrightarrow>
        ledger (fst (update_category_for_description fault desc cat year locked d)) ! i = ledger d ! i) \<and>
    length (ledger (fst (save_edits fault pystr shown user year d))) = length (ledger d) \<and>
    (\<forall>i < length (ledger d). cell_month (txn_date (ledger d ! i)) \<in> get_locked_months year d \<longrightarrow>
        ledger (fst (save_edits fault pystr shown user year d)) ! i = ledger d ! i) \<and>
    (\<forall>user'. (\<forall>r. cell_month (txn_date r) \<notin> get_locked_months year d \<longrightarrow> user' r = user r) \<longrightarrow>
        save_edits fault pystr shown user' year d = save_edits fault pystr shown user year d) \<and>
    (\<forall>n d'. save_edits fault pystr shown user year d = (d', Inr n) \<longrightarrow>
        n \<le> length (filter (\<lambda>r. cell_month (txn_date r) \<notin> get_locked_months year d)
               (filter shown (fetch_year year d)))) \<and>
    ((\<forall>r \<in> set (ledger d). year_is year (txn_date r) \<and> shown r \<longrightarrow>
        cell_month (txn_date r) \<in> get_locked_months year d) \<longrightarrow>
        save_edits fault pystr shown user year d = (d, Inr 0)) \<and>
    locked_months (fst (update_category_for_description fault desc cat year locked d)) = locked_months d \<and>
    locked_months (fst (save_edits fault pystr shown user year d)) = locked_months d"
  using keepsD [OF update_category_keeps [OF assms, of locked fault desc cat year]]
    keepsD [OF save_edits_keeps [OF assms, of year fault pystr shown user]]
    update_category_locks [OF assms, of fault desc cat year locked]
    save_edits_locks [OF assms, of fault pystr shown user year]
    save_edits_locked_edits [of year d _ user fault pystr shown]
    save_edits_count [of fault pystr shown user year d]
    save_edits_all_locked [of d year shown fault pystr user]
  by blast


lemma lock_example_categorize:
  "fst (update_category_for_description no_fault ''COFFEE'' ''Food'' 2024 {''01''} lock_db) =
   lock_db\<lparr>ledger := [january, february\<lparr>category := SText ''Food''\<rparr>]\<rparr>"
  by code_simp

lemma lock_example_save:
  "save_edits no_fault example_pystr all_shown to_food 2024 lock_db =
   (lock_db\<lparr>ledger := [january, february\<lparr>category := SText ''Food''\<rparr>]\<rparr>, Inr 1)"
  by code_simp

lemma lock_example_facts:
  "distinct (map row_id (ledger lock_db))"
  "get_locked_months 2024 lock_db = {''01''}"
  "cell_month (txn_date (ledger lock_db ! 0)) = ''01''"
  "length (ledger lock_db) = 2"
  by code_simp+

text \<open>
  Witness for C4: January 2024 is locked. Categorizing COFFEE and saving an edit of every
  category leave the January row as it is, change the February row, and report one change.
\<close>

theorem locked_months_immutable_witness:
  "distinct (map row_id (ledger lock_db)) \<and>
   (0::nat) < length (ledger lock_db) \<and>
   cell_month (txn_date (ledger lock_db ! 0)) \<in> {''01''} \<and>
   cell_month (txn_date (ledger lock_db ! 0)) \<in> get_locked_months 2024 lock_db \<and>
   ledger (fst (update_category_for_description no_fault ''COFFEE'' ''Food'' 2024 {''01''} lock_db)) ! 0 =
     ledger lock_db ! 0 \<and>
   ledger (fst (update_category_for_description no_fault ''COFFEE'' ''Food'' 2024 {''01''} lock_db)) ! 1 =
     february\<lparr>category := SText ''Food''\<rparr> \<and>
   ledger (fst (save_edits no_fault example_pystr all_shown to_food 2024 lock_db)) ! 0 = ledger lock_db ! 0 \<and>
   ledger (fst (save_edits no_fault example_pystr all_shown to_food 2024 lock_db)) ! 1 =
     february\<lparr>category := SText ''Food''\<rparr> \<and>
   snd (save_edits no_fault example_pystr all_shown to_food 2024 lock_db) = Inr 1"
proof -
  note t = locked_months_immutable [OF lock_example_facts(1), of no_fault "''COFFEE''" "''Food''" 2024
      "{''01''}" example_pystr all_shown to_food]
  have l: "(0::nat) < length (ledger lock_db)"
    "cell_month (txn_date (ledger lock_db ! 0)) \<in> {''01''}"
    "cell_month (txn_date (ledger lock_db ! 0)) \<in> get_locked_months 2024 lock_db"
    by (simp_all add: lock_example_facts)
  from t l(1,2) have c: "ledger (fst (update_category_for_description no_fault ''COFFEE'' ''Food'' 2024
      {''01''} lock_db)) ! 0 = ledger lock_db ! 0"
    by blast
  from t l(1,3) have s: "ledger (fst (save_edits no_fault example_pystr all_shown to_food 2024 lock_db)) ! 0 =
      ledger lock_db ! 0"
    by blast
  show ?thesis
    using c s l lock_example_facts(1)
    by (simp add: lock_example_categorize lock_example_save)
qed

section \<open>Properties of the stored dates\<close>

lemma length_str_nat_1: "n < 10 \<Longrightarrow> length (str_nat n) = 1"
  by (subst str_nat.simps) simp

lemma length_str_nat_2: "10 \<le> n \<Longrightarrow> n < 100 \<Longrightarrow> length (str_nat n) = 2"
  by (subst str_nat.simps) (simp add: length_str_nat_1)

lemma length_str_nat_3: "100 \<le> n \<Longrightarrow> n < 1000 \<Longrightarrow> length (str_nat n) = 3"
  by (subst str_nat.simps) (simp add: length_str_nat_2)

lemma length_str_nat_4: "1000 \<le> n \<Longrightarrow> n < 10000 \<Longrightarrow> length (str_nat n) = 4"
  by (subst str_nat.simps) (simp add: length_str_nat_3)

lemma str_nat_not_Nil: "str_nat n \<noteq> []"
  by (subst str_nat.simps) simp

lemma digit_char_zero: "d < 10 \<Longrightarrow> digit_char d = CHR ''0'' \<longleftrightarrow> d = 0"
proof -
  assume "d < 10"
  have z: "CHR ''0'' = digit_char 0" by code_simp
  from \<open>d < 10\<close> show ?thesis
    unfolding z digit_char_def by (simp add: char_of_eq_iff take_bit_nat_eq_self)
qed

lemma hd_str_nat: "0 < n \<Longrightarrow> hd (str_nat n) \<noteq> CHR ''0''"
proof (induction n rule: str_nat.induct)
  case (1 n)
  show ?case
  proof (cases "n < 10")
    case True
    with 1 show ?thesis
      by (subst str_nat.simps) (simp add: digit_char_zero)
  next
    case False
    then have "0 < n div 10" by simp
    with 1 False have "hd (str_nat (n div 10)) \<noteq> CHR ''0''" by simp
    with False show ?thesis
      by (subst str_nat.simps) (simp add: str_nat_not_Nil)
  qed
qed

lemma zfill_id: "w \<le> length s \<Longrightarrow> zfill w s = s"
  by (simp add: zfill_def)

lemma zfill_length: "length s \<le> w \<Longrightarrow> length (zfill w s) = w"
  by (simp add: zfill_def)

lemma zfill_hd: "length s < w \<Longrightarrow> hd (zfill w s) = CHR ''0''"
  by (cases "w - length s") (simp_all add: zfill_def)

lemma length_str_nat_le_2: "n < 100 \<Longrightarrow> length (str_nat n) \<le> 2"
  by (cases "n < 10") (simp_all add: length_str_nat_1 length_str_nat_2)

lemma length_str_nat_le_4: "n < 10000 \<Longrightarrow> length (str_nat n) \<le> 4"
proof -
  assume "n < 10000"
  then consider "n < 10" | "10 \<le> n" "n < 100" | "100 \<le> n" "n < 1000" | "1000 \<le> n" "n < 10000"
    by linarith
  then show ?thesis
    by cases (simp_all add: length_str_nat_1 length_str_nat_2 length_str_nat_3 length_str_nat_4)
qed

lemma valid_date_bounds:
  "valid_date d \<Longrightarrow> 1 \<le> d_year d \<and> d_year d < 10000 \<and> d_month d < 100 \<and> d_day d < 100"
  by (auto simp: valid_date_def days_in_month_def split: if_splits)

lemma isoformat_shape:
  assumes "valid_date d"
  shows "length (isoformat d) = 10"
    and "take 4 (isoformat d) = zfill 4 (str_nat (d_year d))"
    and "month_of (isoformat d) = fmt_02d (d_month d)"
proof -
  from valid_date_bounds [OF assms] have
    y: "length (zfill 4 (str_nat (d_year d))) = 4" and
    m: "length (zfill 2 (str_nat (d_month d))) = 2" and
    dd: "length (zfill 2 (str_nat (d_day d))) = 2"
    by (simp_all add: zfill_length length_str_nat_le_4 length_str_nat_le_2)
  show "length (isoformat d) = 10"
    by (simp add: isoformat_def y m dd)
  show "take 4 (isoformat d) = zfill 4 (str_nat (d_year d))"
    by (simp add: isoformat_def y)
  show "month_of (isoformat d) = fmt_02d (d_month d)"
    by (simp add: isoformat_def month_of_def slice_def y m fmt_02d_def)
qed

lemma year_filter_agrees:
  assumes v: "valid_date d" and y: "1000 \<le> y"
  shows "year_is y (SText (isoformat d)) \<longleftrightarrow> int (d_year d) = y"
proof -
  from y have s: "str_int y = str_nat (nat y)" by (simp add: str_int_def)
  from valid_date_bounds [OF v] have b: "1 \<le> d_year d" "d_year d < 10000" by simp_all
  show ?thesis
  proof (cases "1000 \<le> d_year d")
    case True
    with b have "zfill 4 (str_nat (d_year d)) = str_nat (d_year d)"
      by (simp add: zfill_id length_str_nat_4)
    then have "year_is y (SText (isoformat d)) \<longleftrightarrow> str_nat (d_year d) = str_nat (nat y)"
      by (simp add: year_is_def isoformat_shape(2) [OF v] s)
    also have "\<dots> \<longleftrightarrow> d_year d = nat y"
      by (auto dest: str_nat_inj)
    also have "\<dots> \<longleftrightarrow> int (d_year d) = y"
      using y by auto
    finally show ?thesis .
  next
    case False
    then have "length (str_nat (d_year d)) < 4"
      using b
      by (cases "d_year d < 10"; cases "d_year d < 100")
        (simp_all add: length_str_nat_1 length_str_nat_2 length_str_nat_3)
    then have "hd (zfill 4 (str_nat (d_year d))) = CHR ''0''"
      by (rule zfill_hd)
    moreover from y have "hd (str_nat (nat y)) \<noteq> CHR ''0''"
      by (intro hd_str_nat) simp
    ultimately have "zfill 4 (str_nat (d_year d)) \<noteq> str_nat (nat y)"
      by metis
    with False y show ?thesis
      by (simp add: year_is_def isoformat_shape(2) [OF v] s)
  qed
qed

lemma make_date_valid: "make_date y m dd = Some d \<Longrightarrow> valid_date d"
  by (auto simp: make_date_def split: option.splits if_splits)

lemma strptime_valid:
  "strptime_mdY s = Some d \<Longrightarrow> valid_date d"
  "strptime_mdy s = Some d \<Longrightarrow> valid_date d"
  "strptime_Ymd s = Some d \<Longrightarrow> valid_date d"
  by (auto simp: strptime_mdY_def strptime_mdy_def strptime_Ymd_def
      split: list.splits dest: make_date_valid)

lemma parse_date_iso:
  assumes t: "\<forall>s t. to_datetime ext s = Some t \<longrightarrow> (\<exists>d. t = Timestamp d \<and> valid_date d)"
    and p: "parse_date ext v = Some s"
  shows "\<exists>d. valid_date d \<and> s = isoformat d"
proof (cases "to_datetime ext (strip (cell_str ext v))")
  case None
  with p show ?thesis
    unfolding parse_date_def Let_def
    by (auto split: if_splits option.splits dest: strptime_valid)
next
  case (Some z)
  with t obtain d where "z = Timestamp d" "valid_date d" by blast
  with p Some show ?thesis
    unfolding parse_date_def Let_def
    by (auto split: if_splits option.splits simp: timestamp_iso_def dest: strptime_valid)
qed

text \<open>
  With a \<^verbatim>\<open>pd.to_datetime\<close> that returns dates only, every transaction date of an imported
  batch is the ISO text of a date, so \<^verbatim>\<open>month_of\<close> reads its month (\<open>isoformat_shape\<close>), and
  the year filter of \<^verbatim>\<open>fetch_year\<close> agrees with its year for the years from 1000 on
  (\<open>year_filter_agrees\<close>).
\<close>

lemma candidate_txn_date:
  "candidate ext acct route c = Some r \<Longrightarrow> df_txn_date r = parse_date ext (c_txn c) \<and> df_txn_date r \<noteq> None"
  by (auto simp: candidate_def Let_def split: if_splits)

lemma assign_external_ids_txn_date:
  "map df_txn_date (assign_external_ids sha df) = map df_txn_date df"
  by (rule nth_equalityI)
    (simp_all add: assign_external_ids_def length_make_external_ids)

lemma imported_dates_iso:
  assumes t: "\<forall>s t. to_datetime ext s = Some t \<longrightarrow> (\<exists>d. t = Timestamp d \<and> valid_date d)"
    and r: "r \<in> set (import_chase_csv ext acct route rows)"
  shows "\<exists>d. valid_date d \<and> df_txn_date r = Some (isoformat d)"
proof -
  from r have "df_txn_date r \<in> set (map df_txn_date (import_chase_csv ext acct route rows))"
    by simp
  then have "df_txn_date r \<in> set (map df_txn_date (List.map_filter (candidate ext acct route) rows))"
    by (simp only: import_chase_csv_def assign_external_ids_txn_date)
  then obtain r' where "r' \<in> set (List.map_filter (candidate ext acct route) rows)"
    "df_txn_date r = df_txn_date r'"
    by auto
  then obtain c where "candidate ext acct route c = Some r'"
    by (auto simp: List.map_filter_def)
  from candidate_txn_date [OF this] \<open>df_txn_date r = df_txn_date r'\<close>
  obtain s where "parse_date ext (c_txn c) = Some s" "df_txn_date r = Some s"
    by (cases "parse_date ext (c_txn c)") auto
  with parse_date_iso [OF t] show ?thesis by blast
qed

text \<open>
  Claim C10 at a failing input. A statement row dated 01/01/0999 is parsed by the first format
  of \<^verbatim>\<open>parse_date\<close> and stored as 0999-01-01, an ISO date. The year selector reads the text
  0999 as the number 999, and \<^verbatim>\<open>fetch_year\<close> compares the first four characters of the date
  with \<^verbatim>\<open>str(999)\<close>, the text 999: the filter does not agree with the calendar year of the
  transaction, and the year 999 shows no rows.
\<close>

theorem year_filter_misses_year_999:
  "parse_date example_ext (Str ''01/01/0999'') = Some ''0999-01-01'' \<and>
   map txn_date (ledger year_999_db) = [SText ''0999-01-01''] \<and>
   year_texts year_999_db = [''0999''] \<and>
   nat_of_digits ''0999'' = 999 \<and>
   str_int 999 = ''999'' \<and>
   fetch_year 999 year_999_db = []"
  by code_simp

end
